theory Spec2Isabelle
  imports Complex_Main
begin

section \<open>The printer icon generator (create_icon.py)\<close>

text \<open>
  The script has two functions. \<open>create_printer_icon(size)\<close> creates a transparent
  RGBA image and issues four or five drawing calls on it; \<open>main()\<close> renders the sizes
  16, 32, 48 and 256 and saves an ICO file through the imaging library.

  The imaging library (PIL) is not part of the repository. Its three entry points the
  script uses are parameters of the model: the rasteriser of \<open>ImageDraw.rectangle\<close>,
  the rasteriser of \<open>ImageDraw.ellipse\<close> and \<open>Image.save\<close>. A call of the
  library may raise, so each returns a sum, and the script, which has no
  \<open>try\<close>, propagates what it gets.

  Python floats are modelled by exact rationals. The line width only divides by 64 and
  multiplies by 2, which binary floating point does without rounding for every size
  below \<open>2^53\<close>; the products with 0.05, 0.15, 0.3, 0.7 and 0.8 are rounded by
  Python and exact here. The theorems on the rendered image are therefore about its
  pixels, to within one pixel of the boxes, and none of them states that a coordinate
  of the program equals a product exactly.
\<close>

subsection \<open>Images\<close>

type_synonym rgb = "nat \<times> nat \<times> nat"
type_synonym rgba = "nat \<times> nat \<times> nat \<times> nat"
type_synonym point = "int \<times> int"

record image =
  width :: int
  height :: int
  pixel :: "point \<Rightarrow> rgba"

text \<open>
  \<open>Image.new('RGBA', (w, h), color)\<close>: every pixel has the given colour. The
  pixels outside of the image keep this value for ever, as no drawing reaches them. The
  script passes the positive sizes 16, 32, 48 and 256 only; a negative size, which the
  library refuses, is not modelled.
\<close>

definition new_image :: "int \<Rightarrow> int \<Rightarrow> rgba \<Rightarrow> image" where
  "new_image w h c = \<lparr>width = w, height = h, pixel = (\<lambda>p. c)\<rparr>"

text \<open>
  A colour given as an RGB triple on an RGBA image is drawn with alpha 255.
\<close>

definition opaque :: "rgb \<Rightarrow> rgba" where
  "opaque c = (case c of (r, g, b) \<Rightarrow> (r, g, b, 255))"

definition alpha :: "rgba \<Rightarrow> nat" where
  "alpha c = (case c of (r, g, b, a) \<Rightarrow> a)"

subsection \<open>Drawing calls\<close>

datatype py_error = IndexError | ValueError | OSError

datatype shape = Rectangle | Ellipse

text \<open>
  One call of \<open>draw.rectangle\<close> or \<open>draw.ellipse\<close>: the bounding box
  \<open>[x0, y0, x1, y1]\<close>, the fill, the outline and the stroke width.
\<close>

record draw_call =
  kind :: shape
  box :: "rat \<times> rat \<times> rat \<times> rat"
  fill :: rgb
  outline :: rgb
  stroke :: int

text \<open>
  What a drawing call paints is a layer: the pixels it sets, each with its colour. The
  image is in mode RGBA and the drawing object is created without a mode, so a painted
  pixel replaces the one below (no blending).
\<close>

type_synonym layer = "point \<Rightarrow> rgba option"

type_synonym rasteriser = "rat \<times> rat \<times> rat \<times> rat \<Rightarrow> rgb \<Rightarrow> rgb \<Rightarrow> int \<Rightarrow> py_error + layer"

record pil =
  rectangle :: rasteriser
  ellipse :: rasteriser

definition rasterise :: "pil \<Rightarrow> draw_call \<Rightarrow> py_error + layer" where
  "rasterise lib c =
     (case kind c of
        Rectangle \<Rightarrow> rectangle lib (box c) (fill c) (outline c) (stroke c)
      | Ellipse \<Rightarrow> ellipse lib (box c) (fill c) (outline c) (stroke c))"

definition in_bounds :: "image \<Rightarrow> point \<Rightarrow> bool" where
  "in_bounds img p = (case p of (x, y) \<Rightarrow> 0 \<le> x \<and> x < width img \<and> 0 \<le> y \<and> y < height img)"

definition overlay :: "layer \<Rightarrow> image \<Rightarrow> image" where
  "overlay l img =
     img\<lparr>pixel := (\<lambda>p. if in_bounds img p then (case l p of Some c \<Rightarrow> c | None \<Rightarrow> pixel img p)
                        else pixel img p)\<rparr>"

text \<open>Sequencing of calls that may raise: the first exception ends the sequence.\<close>

definition and_then :: "py_error + 'a \<Rightarrow> ('a \<Rightarrow> py_error + 'b) \<Rightarrow> py_error + 'b" where
  "and_then m f = (case m of Inl e \<Rightarrow> Inl e | Inr x \<Rightarrow> f x)"

definition draw :: "pil \<Rightarrow> draw_call \<Rightarrow> image \<Rightarrow> py_error + image" where
  "draw lib c img = and_then (rasterise lib c) (\<lambda>l. Inr (overlay l img))"

subsection \<open>The renderer\<close>

text \<open>The parameter \<open>size\<close> of the source is \<open>sz\<close> here, a Python integer.\<close>

text \<open>Python's \<open>int(x)\<close> on a float truncates towards zero.\<close>

definition py_int :: "rat \<Rightarrow> int" where
  "py_int x = (if 0 \<le> x then \<lfloor>x\<rfloor> else \<lceil>x\<rceil>)"

definition scale :: "int \<Rightarrow> rat" where
  "scale sz = of_int sz / 64"

definition line_width :: "int \<Rightarrow> int" where
  "line_width sz = max 1 (py_int (2 * scale sz))"

definition printer_body :: rgb where "printer_body = (70, 130, 180)"
definition paper_color :: rgb where "paper_color = (255, 255, 255)"
definition outline_color :: rgb where "outline_color = (40, 80, 120)"
definition accent_color :: rgb where "accent_color = (100, 180, 255)"
definition button_color :: rgb where "button_color = (100, 200, 100)"
definition tray_color :: rgb where "tray_color = (60, 110, 160)"

definition paper_x :: "int \<Rightarrow> rat" where "paper_x sz = of_int sz * 0.25"
definition paper_y :: "int \<Rightarrow> rat" where "paper_y sz = of_int sz * 0.05"
definition paper_w :: "int \<Rightarrow> rat" where "paper_w sz = of_int sz * 0.5"
definition paper_h :: "int \<Rightarrow> rat" where "paper_h sz = of_int sz * 0.3"

definition body_x :: "int \<Rightarrow> rat" where "body_x sz = of_int sz * 0.15"
definition body_y :: "int \<Rightarrow> rat" where "body_y sz = of_int sz * 0.25"
definition body_w :: "int \<Rightarrow> rat" where "body_w sz = of_int sz * 0.7"
definition body_h :: "int \<Rightarrow> rat" where "body_h sz = of_int sz * 0.5"

definition panel_y :: "int \<Rightarrow> rat" where "panel_y sz = body_y sz + body_h sz * 0.3"

definition button_x :: "int \<Rightarrow> rat" where "button_x sz = body_x sz + body_w sz * 0.8"
definition button_y :: "int \<Rightarrow> rat" where "button_y sz = body_y sz + body_h sz * 0.15"
definition button_r :: "int \<Rightarrow> rat" where "button_r sz = of_int sz * 0.05"

definition tray_y :: "int \<Rightarrow> rat" where "tray_y sz = body_y sz + body_h sz"
definition tray_h :: "int \<Rightarrow> rat" where "tray_h sz = of_int sz * 0.15"

definition paper_call :: "int \<Rightarrow> draw_call" where
  "paper_call sz =
     \<lparr>kind = Rectangle,
      box = (paper_x sz, paper_y sz, paper_x sz + paper_w sz, paper_y sz + paper_h sz),
      fill = paper_color, outline = outline_color, stroke = line_width sz\<rparr>"

definition body_call :: "int \<Rightarrow> draw_call" where
  "body_call sz =
     \<lparr>kind = Rectangle,
      box = (body_x sz, body_y sz, body_x sz + body_w sz, body_y sz + body_h sz),
      fill = printer_body, outline = outline_color, stroke = line_width sz\<rparr>"

definition panel_call :: "int \<Rightarrow> draw_call" where
  "panel_call sz =
     \<lparr>kind = Rectangle,
      box = (body_x sz + of_int (2 * line_width sz), panel_y sz,
             body_x sz + body_w sz - of_int (2 * line_width sz),
             body_y sz + body_h sz - of_int (2 * line_width sz)),
      fill = accent_color, outline = outline_color, stroke = max 1 (line_width sz - 1)\<rparr>"

definition button_call :: "int \<Rightarrow> draw_call" where
  "button_call sz =
     \<lparr>kind = Ellipse,
      box = (button_x sz - button_r sz, button_y sz - button_r sz,
             button_x sz + button_r sz, button_y sz + button_r sz),
      fill = button_color, outline = outline_color, stroke = max 1 (line_width sz - 1)\<rparr>"

definition tray_call :: "int \<Rightarrow> draw_call" where
  "tray_call sz =
     \<lparr>kind = Rectangle,
      box = (body_x sz, tray_y sz, body_x sz + body_w sz, tray_y sz + tray_h sz),
      fill = tray_color, outline = outline_color, stroke = line_width sz\<rparr>"

text \<open>
  The function body: the image is created, then the calls follow one another on the
  same image; an exception of a call ends the function.
\<close>

definition create_printer_icon :: "pil \<Rightarrow> int \<Rightarrow> py_error + image" where
  "create_printer_icon lib sz =
     and_then (Inr (new_image sz sz (0, 0, 0, 0))) (\<lambda>img.
     and_then (draw lib (paper_call sz) img) (\<lambda>img.
     and_then (draw lib (body_call sz) img) (\<lambda>img.
     and_then (draw lib (panel_call sz) img) (\<lambda>img.
     and_then (if sz \<ge> 32 then draw lib (button_call sz) img else Inr img) (\<lambda>img.
     draw lib (tray_call sz) img)))))"

text \<open>The same calls as a list, in the order the function issues them.\<close>

definition draw_calls :: "int \<Rightarrow> draw_call list" where
  "draw_calls sz =
     [paper_call sz, body_call sz, panel_call sz] @
     (if sz \<ge> 32 then [button_call sz] else []) @ [tray_call sz]"

fun draw_all :: "pil \<Rightarrow> draw_call list \<Rightarrow> image \<Rightarrow> py_error + image" where
  "draw_all lib [] img = Inr img"
| "draw_all lib (c # cs) img = and_then (draw lib c img) (draw_all lib cs)"

text \<open>
  The same function on the objects of the running process. An image is an object: the
  function allocates a new one, the drawing calls change it in place, and the function
  returns the reference. The store holds every image object of the process, so a
  function that read or reused an object of an earlier call would show here.
\<close>

record store =
  next_id :: nat
  objects :: "nat \<Rightarrow> image"

definition image_new :: "int \<Rightarrow> int \<Rightarrow> rgba \<Rightarrow> store \<Rightarrow> nat \<times> store" where
  "image_new w h c s =
     (next_id s, s\<lparr>next_id := Suc (next_id s), objects := (objects s)(next_id s := new_image w h c)\<rparr>)"

definition draw_on :: "pil \<Rightarrow> draw_call \<Rightarrow> nat \<Rightarrow> store \<Rightarrow> py_error + store" where
  "draw_on lib c img s =
     and_then (draw lib c (objects s img)) (\<lambda>drawn. Inr (s\<lparr>objects := (objects s)(img := drawn)\<rparr>))"

definition create_printer_icon_in :: "pil \<Rightarrow> int \<Rightarrow> store \<Rightarrow> py_error + nat \<times> store" where
  "create_printer_icon_in lib sz s =
     (case image_new sz sz (0, 0, 0, 0) s of (img, s) \<Rightarrow>
     and_then (draw_on lib (paper_call sz) img s) (\<lambda>s.
     and_then (draw_on lib (body_call sz) img s) (\<lambda>s.
     and_then (draw_on lib (panel_call sz) img s) (\<lambda>s.
     and_then (if sz \<ge> 32 then draw_on lib (button_call sz) img s else Inr s) (\<lambda>s.
     and_then (draw_on lib (tray_call sz) img s) (\<lambda>s.
     Inr (img, s)))))))"

text \<open>A box with every coordinate multiplied by a factor.\<close>

definition scaled :: "rat \<Rightarrow> rat \<times> rat \<times> rat \<times> rat \<Rightarrow> rat \<times> rat \<times> rat \<times> rat" where
  "scaled k b = (case b of (x0, y0, x1, y1) \<Rightarrow> (k * x0, k * y0, k * x1, k * y1))"


text \<open>
  The line width as the specification words it, with rounding to the nearest integer
  in place of the truncation of the source; it is compared with \<open>line_width\<close>.
\<close>

definition spec_line_width :: "int \<Rightarrow> int" where
  "spec_line_width sz = max 1 (round (2 * scale sz))"

subsection \<open>The packaging entry point\<close>

text \<open>
  \<open>Image.save(path, format, sizes)\<close> is the library's: it gets one image, the
  path, the format name and the list of sizes, and either raises or leaves a file.
  The type \<open>'f\<close> is what ends in the file.
\<close>

type_synonym 'f saver = "image \<Rightarrow> string \<Rightarrow> string \<Rightarrow> (int \<times> int) list \<Rightarrow> py_error + 'f"

definition sizes :: "int list" where
  "sizes = [16, 32, 48, 256]"

text \<open>
  The loop \<open>for size in sizes: icons.append(create_printer_icon(size))\<close>, with the
  renderer as a parameter and the list \<open>icons\<close> as an accumulator.
\<close>

fun render_all :: "(int \<Rightarrow> py_error + image) \<Rightarrow> int list \<Rightarrow> image list \<Rightarrow> py_error + image list" where
  "render_all render [] icons = Inr icons"
| "render_all render (sz # rest) icons =
     and_then (render sz) (\<lambda>icon. render_all render rest (icons @ [icon]))"

text \<open>\<open>icons[-1]\<close> raises IndexError on an empty list.\<close>

definition last_icon :: "image list \<Rightarrow> py_error + image" where
  "last_icon icons = (case icons of [] \<Rightarrow> Inl IndexError | _ # _ \<Rightarrow> Inr (last icons))"

text \<open>
  The body of \<open>main\<close> with its two local constants, the size list and the output
  path, as parameters. The progress lines it prints are not modelled.
\<close>

definition package :: "(int \<Rightarrow> py_error + image) \<Rightarrow> 'f saver \<Rightarrow> int list \<Rightarrow> string \<Rightarrow> py_error + 'f" where
  "package render save szs output_path =
     and_then (render_all render szs []) (\<lambda>icons.
     and_then (last_icon icons) (\<lambda>largest.
     save largest output_path ''ICO'' (map (\<lambda>s. (s, s)) szs)))"

definition main :: "pil \<Rightarrow> 'f saver \<Rightarrow> string \<Rightarrow> py_error + 'f" where
  "main lib save output_path = package (create_printer_icon lib) save sizes output_path"

subsection \<open>What the proofs ask of the library\<close>

text \<open>
  A pixel is near a box when it lies less than one pixel outside of it: this holds for
  the pixels of a shape whichever way the library turns the corners into integers
  (truncation, floor, ceiling or rounding).
\<close>

definition near_box :: "rat \<times> rat \<times> rat \<times> rat \<Rightarrow> point \<Rightarrow> bool" where
  "near_box b p =
     (case b of (x0, y0, x1, y1) \<Rightarrow> case p of (x, y) \<Rightarrow>
        x0 - 1 < of_int x \<and> of_int x < x1 + 1 \<and> y0 - 1 < of_int y \<and> of_int y < y1 + 1)"

text \<open>A shape is painted in its fill and its outline colour, both opaque.\<close>

definition paints_colours :: "rasteriser \<Rightarrow> bool" where
  "paints_colours r =
     (\<forall>b f ol w l p c. r b f ol w = Inr l \<longrightarrow> l p = Some c \<longrightarrow> c = opaque f \<or> c = opaque ol)"

text \<open>A shape is painted near its bounding box.\<close>

definition paints_inside :: "rasteriser \<Rightarrow> bool" where
  "paints_inside r =
     (\<forall>b f ol w l p c. r b f ol w = Inr l \<longrightarrow> l p = Some c \<longrightarrow> near_box b p)"

definition ordered_box :: "rat \<times> rat \<times> rat \<times> rat \<Rightarrow> bool" where
  "ordered_box b = (case b of (x0, y0, x1, y1) \<Rightarrow> x0 \<le> x1 \<and> y0 \<le> y1)"

text \<open>A box with \<open>x0 \<le> x1\<close> and \<open>y0 \<le> y1\<close> is accepted.\<close>

definition accepts_ordered :: "rasteriser \<Rightarrow> bool" where
  "accepts_ordered r =
     (\<forall>x0 y0 x1 y1 f ol w. x0 \<le> x1 \<longrightarrow> y0 \<le> y1 \<longrightarrow> (\<exists>l. r (x0, y0, x1, y1) f ol w = Inr l))"

text \<open>
  A shape wider and higher than twice its stroke has a pixel in the fill colour.
\<close>

definition fills_interior :: "rasteriser \<Rightarrow> bool" where
  "fills_interior r =
     (\<forall>x0 y0 x1 y1 f ol w l. r (x0, y0, x1, y1) f ol w = Inr l \<longrightarrow>
        2 * of_int w < x1 - x0 \<longrightarrow> 2 * of_int w < y1 - y0 \<longrightarrow> (\<exists>p. l p = Some (opaque f)))"

text \<open>
  A pixel is well inside a box when it lies at least one pixel away from every side,
  and a rectangle paints the pixels well inside of its box, whichever way the corners
  are turned into integers.
\<close>

definition well_inside :: "rat \<times> rat \<times> rat \<times> rat \<Rightarrow> point \<Rightarrow> bool" where
  "well_inside b p =
     (case b of (x0, y0, x1, y1) \<Rightarrow> case p of (x, y) \<Rightarrow>
        x0 + 1 \<le> of_int x \<and> of_int x \<le> x1 - 1 \<and> y0 + 1 \<le> of_int y \<and> of_int y \<le> y1 - 1)"

definition covers_box :: "rasteriser \<Rightarrow> bool" where
  "covers_box r =
     (\<forall>b f ol w l p. r b f ol w = Inr l \<longrightarrow> well_inside b p \<longrightarrow> l p \<noteq> None)"

subsection \<open>A reference rasteriser\<close>

text \<open>
  An instance of the library's parameters, to run the model: the corners are floored,
  both end points belong to the shape, a box with \<open>x1 < x0\<close> or \<open>y1 < y0\<close> is refused
  with ValueError, a rectangle has a frame of the stroke width in the outline colour,
  and an ellipse is the set of pixels whose centres lie in the ellipse inscribed in the
  integer box, with the ring between it and the ellipse smaller by the stroke on every
  side in the outline colour.
\<close>

definition ref_rectangle :: rasteriser where
  "ref_rectangle b f ol w =
     (case b of (x0, y0, x1, y1) \<Rightarrow>
        if x1 < x0 \<or> y1 < y0 then Inl ValueError
        else Inr (\<lambda>(x, y).
          if \<lfloor>x0\<rfloor> \<le> x \<and> x \<le> \<lfloor>x1\<rfloor> \<and> \<lfloor>y0\<rfloor> \<le> y \<and> y \<le> \<lfloor>y1\<rfloor>
          then (if x < \<lfloor>x0\<rfloor> + w \<or> \<lfloor>x1\<rfloor> - w < x \<or> y < \<lfloor>y0\<rfloor> + w \<or> \<lfloor>y1\<rfloor> - w < y
                then Some (opaque ol) else Some (opaque f))
          else None))"

text \<open>
  \<open>in_ellipse a b u v\<close>: the point \<open>(u/2, v/2)\<close> from the centre lies in the ellipse
  of the diameters \<open>a\<close> and \<open>b\<close>.
\<close>

definition in_ellipse :: "int \<Rightarrow> int \<Rightarrow> int \<Rightarrow> int \<Rightarrow> bool" where
  "in_ellipse a b u v = (0 < a \<and> 0 < b \<and> u * u * (b * b) + v * v * (a * a) \<le> a * a * (b * b))"

definition ref_ellipse :: rasteriser where
  "ref_ellipse b f ol w =
     (case b of (x0, y0, x1, y1) \<Rightarrow>
        if x1 < x0 \<or> y1 < y0 then Inl ValueError
        else Inr (\<lambda>(x, y).
          let a = \<lfloor>x1\<rfloor> - \<lfloor>x0\<rfloor> + 1; b = \<lfloor>y1\<rfloor> - \<lfloor>y0\<rfloor> + 1;
              u = 2 * x - \<lfloor>x0\<rfloor> - \<lfloor>x1\<rfloor>; v = 2 * y - \<lfloor>y0\<rfloor> - \<lfloor>y1\<rfloor>
          in if in_ellipse a b u v
             then (if in_ellipse (a - 2 * w) (b - 2 * w) u v then Some (opaque f)
                   else Some (opaque ol))
             else None))"

definition ref_pil :: pil where
  "ref_pil = \<lparr>rectangle = ref_rectangle, ellipse = ref_ellipse\<rparr>"

text \<open>A saver that keeps all it is given: any other saver is a function of this one.\<close>

definition keep_all :: "(image \<times> string \<times> string \<times> (int \<times> int) list) saver" where
  "keep_all img path fmt szs = Inr (img, path, fmt, szs)"

subsection \<open>A reference encoder\<close>

text \<open>
  An instance of the library's save for the format ICO, to run \<open>main\<close> to the file.
  As the library documents it, the file has one frame for each requested size that is
  not larger than the image and not larger than 256: the image itself where it has that
  size, and the image scaled down to the size otherwise. The file is the list of the
  frames with their sizes. The scaling here takes the nearest pixel to the upper left;
  the library's filter is another.
\<close>

definition ref_resize :: "image \<Rightarrow> int \<times> int \<Rightarrow> image" where
  "ref_resize img s =
     (case s of (w, h) \<Rightarrow>
        \<lparr>width = w, height = h,
         pixel = (\<lambda>(x, y). if 0 \<le> x \<and> x < w \<and> 0 \<le> y \<and> y < h
                           then pixel img (x * width img div w, y * height img div h)
                           else (0, 0, 0, 0))\<rparr>)"

definition ref_ico_save :: "((int \<times> int) \<times> image) list saver" where
  "ref_ico_save img path fmt szs =
     (if fmt \<noteq> ''ICO'' then Inl ValueError
      else Inr (map (\<lambda>s. (s, if s = (width img, height img) then img else ref_resize img s))
                  (filter (\<lambda>s. fst s \<le> width img \<and> snd s \<le> height img \<and>
                                fst s \<le> 256 \<and> snd s \<le> 256) szs)))"

section \<open>The line width\<close>

lemma line_width_div: "line_width sz = max 1 (sz div 32)"
proof (cases "0 \<le> sz")
  case True
  have "2 * scale sz = of_int sz / of_int 32"
    by (simp add: scale_def)
  then have "\<lfloor>2 * scale sz\<rfloor> = sz div 32"
    by (simp only: floor_divide_of_int_eq)
  moreover have "0 \<le> 2 * scale sz"
    using True by (simp add: scale_def)
  ultimately show ?thesis
    by (simp add: line_width_def py_int_def)
next
  case False
  then have neg: "2 * scale sz < 0"
    by (simp add: scale_def)
  then have "\<lceil>2 * scale sz\<rceil> \<le> 0"
    by (simp add: ceiling_le_iff)
  moreover have "sz div 32 < 0"
    using False by simp
  ultimately show ?thesis
    using neg by (simp add: line_width_def py_int_def)
qed

text \<open>
  Claim C2, as the specification states it: the stroke of the paper, body and tray
  rectangles is the maximum of 1 and twice the scale rounded to the nearest integer.
  The source truncates. At the sizes 48 and 56 twice the scale is 1.5 and 1.75: the
  source draws with the width 1, rounding gives 2.
\<close>

theorem line_width_not_rounded:
  "line_width 48 = 1 \<and> spec_line_width 48 = 2 \<and> line_width 56 = 1 \<and> spec_line_width 56 = 2"
  by code_simp

text \<open>
  Claim C2, amended: the scale is the size divided by 64, the line width is the maximum
  of 1 and twice the scale truncated, which is the maximum of 1 and the integer quotient
  of the size by 32, and the paper, body and tray rectangles are stroked with it.
\<close>

theorem line_width_truncates:
  "scale sz = of_int sz / 64 \<and>
   line_width sz = max 1 (py_int (2 * scale sz)) \<and>
   line_width sz = max 1 (sz div 32) \<and>
   stroke (paper_call sz) = line_width sz \<and>
   stroke (body_call sz) = line_width sz \<and>
   stroke (tray_call sz) = line_width sz"
  using line_width_div [of sz]
  by (simp add: scale_def line_width_def paper_call_def body_call_def tray_call_def)

section \<open>The sequence of drawing calls\<close>

lemma and_then_Inr: "and_then m f = Inr y \<longleftrightarrow> (\<exists>x. m = Inr x \<and> f x = Inr y)"
  by (cases m) (simp_all add: and_then_def)

lemma draw_Inr: "draw lib c img = Inr img' \<longleftrightarrow> (\<exists>l. rasterise lib c = Inr l \<and> img' = overlay l img)"
  by (auto simp: draw_def and_then_Inr)

lemma create_printer_icon_calls:
  "create_printer_icon lib sz = draw_all lib (draw_calls sz) (new_image sz sz (0, 0, 0, 0))"
  by (simp add: create_printer_icon_def draw_calls_def and_then_def split: sum.splits)

lemma overlay_size: "width (overlay l img) = width img \<and> height (overlay l img) = height img"
  by (simp add: overlay_def)

lemma in_bounds_overlay: "in_bounds (overlay l img) p = in_bounds img p"
  by (simp add: in_bounds_def overlay_def)

lemma pixel_overlay:
  "pixel (overlay l img) p =
     (if in_bounds img p then (case l p of Some c \<Rightarrow> c | None \<Rightarrow> pixel img p) else pixel img p)"
  by (simp add: overlay_def)

lemma draw_all_size:
  "draw_all lib cs img = Inr img' \<Longrightarrow> width img' = width img \<and> height img' = height img"
proof (induction cs arbitrary: img)
  case Nil
  then show ?case by simp
next
  case (Cons c cs)
  from Cons.prems obtain l where "draw_all lib cs (overlay l img) = Inr img'"
    by (auto simp: and_then_Inr draw_Inr)
  from Cons.IH [OF this] show ?case by (simp add: overlay_size)
qed

lemma draw_all_in_bounds:
  "draw_all lib cs img = Inr img' \<Longrightarrow> in_bounds img' p = in_bounds img p"
  by (auto simp: in_bounds_def dest: draw_all_size)

lemma draw_all_append:
  "draw_all lib (cs @ ds) img = and_then (draw_all lib cs img) (draw_all lib ds)"
proof (induction cs arbitrary: img)
  case Nil
  show ?case by (simp add: and_then_def)
next
  case (Cons c cs)
  show ?case by (cases "draw lib c img") (simp_all add: and_then_def Cons.IH)
qed

text \<open>A pixel no call of the list paints keeps its value.\<close>

lemma draw_all_untouched:
  assumes "draw_all lib cs img = Inr img'"
    and "\<forall>c\<in>set cs. \<forall>l. rasterise lib c = Inr l \<longrightarrow> l p = None"
  shows "pixel img' p = pixel img p"
  using assms
proof (induction cs arbitrary: img)
  case Nil
  then show ?case by simp
next
  case (Cons c cs)
  from Cons.prems(1) obtain l where l: "rasterise lib c = Inr l"
    and rest: "draw_all lib cs (overlay l img) = Inr img'"
    by (auto simp: and_then_Inr draw_Inr)
  from Cons.prems(2) l have "l p = None" by simp
  then have "pixel (overlay l img) p = pixel img p" by (simp add: pixel_overlay)
  moreover have "pixel img' p = pixel (overlay l img) p"
    using Cons.IH [OF rest] Cons.prems(2) by simp
  ultimately show ?case by simp
qed

text \<open>The last call that paints a pixel decides it.\<close>

lemma draw_all_last_wins:
  assumes "draw_all lib (pre @ c # post) img = Inr img'"
    and "rasterise lib c = Inr l" and "l p = Some col" and "in_bounds img p"
    and "\<forall>c'\<in>set post. \<forall>l'. rasterise lib c' = Inr l' \<longrightarrow> l' p = None"
  shows "pixel img' p = col"
proof -
  from assms(1) obtain img1 where pre: "draw_all lib pre img = Inr img1"
    and rest: "draw_all lib (c # post) img1 = Inr img'"
    by (auto simp: draw_all_append and_then_Inr)
  from rest assms(2) have post: "draw_all lib post (overlay l img1) = Inr img'"
    by (auto simp: and_then_Inr draw_Inr)
  have "in_bounds img1 p" using draw_all_in_bounds [OF pre] assms(4) by simp
  then have "pixel (overlay l img1) p = col" using assms(3) by (simp add: pixel_overlay)
  with draw_all_untouched [OF post assms(5)] show ?thesis by simp
qed

text \<open>Every pixel is the one of the start image or painted by a call of the list.\<close>

lemma draw_all_pixel:
  assumes "draw_all lib cs img = Inr img'"
  shows "pixel img' p = pixel img p \<or>
         (\<exists>c\<in>set cs. \<exists>l. rasterise lib c = Inr l \<and> l p = Some (pixel img' p))"
  using assms
proof (induction cs arbitrary: img)
  case Nil
  then show ?case by simp
next
  case (Cons c cs)
  from Cons.prems obtain l where l: "rasterise lib c = Inr l"
    and rest: "draw_all lib cs (overlay l img) = Inr img'"
    by (auto simp: and_then_Inr draw_Inr)
  from Cons.IH [OF rest] show ?case
  proof
    assume same: "pixel img' p = pixel (overlay l img) p"
    show ?thesis
    proof (cases "in_bounds img p \<and> l p \<noteq> None")
      case True
      then have "l p = Some (pixel img' p)" using same by (cases "l p") (auto simp: pixel_overlay)
      with l show ?thesis by auto
    next
      case False
      then have "pixel (overlay l img) p = pixel img p"
        by (cases "l p") (auto simp: pixel_overlay)
      with same show ?thesis by simp
    qed
  next
    assume "\<exists>c\<in>set cs. \<exists>l. rasterise lib c = Inr l \<and> l p = Some (pixel img' p)"
    then show ?thesis by auto
  qed
qed

section \<open>The geometry of the calls\<close>

lemma line_width_pos: "1 \<le> line_width sz"
  by (simp add: line_width_def)

lemma line_width_le: "(of_int (line_width sz) :: rat) \<le> max 1 (of_int sz / 32)"
proof -
  have "sz div 32 = \<lfloor>(of_int sz :: rat) / of_int 32\<rfloor>"
    by (simp only: floor_divide_of_int_eq)
  then have "(of_int (sz div 32) :: rat) \<le> of_int sz / of_int 32"
    by (simp only: of_int_floor_le)
  then show ?thesis
    by (simp add: line_width_div max_def)
qed

lemma box_paper: "box (paper_call sz) = (of_int sz / 4, of_int sz / 20, of_int sz * 3 / 4, of_int sz * 7 / 20)"
  by (simp add: paper_call_def paper_x_def paper_y_def paper_w_def paper_h_def field_simps)

lemma box_body: "box (body_call sz) = (of_int sz * 3 / 20, of_int sz / 4, of_int sz * 17 / 20, of_int sz * 3 / 4)"
  by (simp add: body_call_def body_x_def body_y_def body_w_def body_h_def field_simps)

lemma box_panel:
  "box (panel_call sz) =
     (of_int sz * 3 / 20 + 2 * of_int (line_width sz), of_int sz * 2 / 5,
      of_int sz * 17 / 20 - 2 * of_int (line_width sz), of_int sz * 3 / 4 - 2 * of_int (line_width sz))"
  by (simp add: panel_call_def panel_y_def body_x_def body_y_def body_w_def body_h_def field_simps)

lemma box_button:
  "box (button_call sz) = (of_int sz * 33 / 50, of_int sz * 11 / 40, of_int sz * 19 / 25, of_int sz * 3 / 8)"
  by (simp add: button_call_def button_x_def button_y_def button_r_def
      body_x_def body_y_def body_w_def body_h_def field_simps)

lemma box_tray:
  "box (tray_call sz) = (of_int sz * 3 / 20, of_int sz * 3 / 4, of_int sz * 17 / 20, of_int sz * 9 / 10)"
  by (simp add: tray_call_def tray_y_def tray_h_def body_x_def body_y_def body_w_def body_h_def field_simps)

lemma ordered_paper: "0 \<le> sz \<Longrightarrow> ordered_box (box (paper_call sz))"
  by (simp add: box_paper ordered_box_def field_simps)

lemma ordered_body: "0 \<le> sz \<Longrightarrow> ordered_box (box (body_call sz))"
  by (simp add: box_body ordered_box_def field_simps)

lemma ordered_button: "0 \<le> sz \<Longrightarrow> ordered_box (box (button_call sz))"
  by (simp add: box_button ordered_box_def field_simps)

lemma ordered_tray: "0 \<le> sz \<Longrightarrow> ordered_box (box (tray_call sz))"
  by (simp add: box_tray ordered_box_def field_simps)

lemma ordered_panel:
  assumes "6 \<le> sz"
  shows "ordered_box (box (panel_call sz))"
proof -
  have sz: "(6::rat) \<le> of_int sz" using assms by simp
  have lw: "(of_int (line_width sz) :: rat) \<le> max 1 (of_int sz / 32)" by (rule line_width_le)
  show ?thesis
    using sz lw by (simp add: box_panel ordered_box_def max_def split: if_splits)
qed

lemma ordered_calls: "6 \<le> sz \<Longrightarrow> c \<in> set (draw_calls sz) \<Longrightarrow> ordered_box (box c)"
  using ordered_paper [of sz] ordered_body [of sz] ordered_button [of sz] ordered_tray [of sz]
    ordered_panel [of sz]
  by (auto simp: draw_calls_def split: if_splits)

lemma rasterise_accepts:
  assumes "accepts_ordered (rectangle lib)" and "accepts_ordered (ellipse lib)"
    and "ordered_box (box c)"
  shows "\<exists>l. rasterise lib c = Inr l"
proof -
  obtain x0 y0 x1 y1 where b: "box c = (x0, y0, x1, y1)" by (cases "box c") auto
  with assms(3) have le: "x0 \<le> x1" "y0 \<le> y1" by (simp_all add: ordered_box_def)
  from assms(1) le have "\<exists>l. rectangle lib (x0, y0, x1, y1) (fill c) (outline c) (stroke c) = Inr l"
    unfolding accepts_ordered_def by blast
  moreover from assms(2) le
  have "\<exists>l. ellipse lib (x0, y0, x1, y1) (fill c) (outline c) (stroke c) = Inr l"
    unfolding accepts_ordered_def by blast
  ultimately show ?thesis
    using b by (cases "kind c") (simp_all add: rasterise_def)
qed

lemma draw_all_returns:
  assumes "accepts_ordered (rectangle lib)" and "accepts_ordered (ellipse lib)"
    and "\<forall>c\<in>set cs. ordered_box (box c)"
  shows "\<exists>img'. draw_all lib cs img = Inr img'"
  using assms(3)
proof (induction cs arbitrary: img)
  case Nil
  show ?case by simp
next
  case (Cons c cs)
  from Cons.prems rasterise_accepts [OF assms(1,2), of c]
  obtain l where "rasterise lib c = Inr l" by auto
  moreover from Cons.IH Cons.prems obtain img' where "draw_all lib cs (overlay l img) = Inr img'"
    by auto
  ultimately show ?case by (auto simp: and_then_Inr draw_Inr)
qed

lemma create_printer_icon_returns:
  assumes "accepts_ordered (rectangle lib)" and "accepts_ordered (ellipse lib)" and "6 \<le> sz"
  shows "\<exists>img. create_printer_icon lib sz = Inr img"
  unfolding create_printer_icon_calls
  using draw_all_returns [OF assms(1,2)] ordered_calls [OF assms(3)] by blast

section \<open>The reference rasteriser meets the contracts\<close>

lemma ref_rectangle_colours: "paints_colours ref_rectangle"
  unfolding paints_colours_def ref_rectangle_def
  by (auto split: if_splits prod.splits)

lemma ref_ellipse_colours: "paints_colours ref_ellipse"
  unfolding paints_colours_def ref_ellipse_def
  by (auto simp: Let_def split: if_splits prod.splits)

lemma near_floor:
  fixes x0 x1 :: rat
  assumes "\<lfloor>x0\<rfloor> \<le> x" and "x \<le> \<lfloor>x1\<rfloor>"
  shows "x0 - 1 < of_int x \<and> of_int x < x1 + 1"
proof -
  have "x0 < of_int \<lfloor>x0\<rfloor> + 1" by linarith
  moreover have "(of_int \<lfloor>x0\<rfloor> :: rat) \<le> of_int x" using assms(1) by simp
  moreover have "(of_int x :: rat) \<le> of_int \<lfloor>x1\<rfloor>" using assms(2) by simp
  moreover have "of_int \<lfloor>x1\<rfloor> \<le> x1" by simp
  ultimately show ?thesis by linarith
qed

lemma ref_rectangle_inside: "paints_inside ref_rectangle"
  unfolding paints_inside_def ref_rectangle_def near_box_def
  by (auto split: if_splits prod.splits dest: near_floor)

lemma in_ellipse_bound:
  assumes "in_ellipse a b u v"
  shows "\<bar>u\<bar> \<le> a \<and> \<bar>v\<bar> \<le> b"
proof -
  from assms have a: "0 < a" and b: "0 < b"
    and le: "u * u * (b * b) + v * v * (a * a) \<le> a * a * (b * b)"
    by (simp_all add: in_ellipse_def)
  have "0 \<le> v * v * (a * a)" by simp
  with le have "u * u * (b * b) \<le> a * a * (b * b)" by linarith
  moreover have "0 < b * b" using b by simp
  ultimately have "u * u \<le> a * a" by (auto simp: mult_le_cancel_right)
  then have "u\<^sup>2 \<le> a\<^sup>2" by (simp add: power2_eq_square)
  then have "\<bar>u\<bar> \<le> \<bar>a\<bar>" by (simp only: abs_le_square_iff)
  then have u: "\<bar>u\<bar> \<le> a" using a by simp
  have "0 \<le> u * u * (b * b)" by simp
  with le have "v * v * (a * a) \<le> a * a * (b * b)" by linarith
  then have "v * v * (a * a) \<le> b * b * (a * a)" by (simp only: mult.commute)
  moreover have "0 < a * a" using a by simp
  ultimately have "v * v \<le> b * b" by (auto simp: mult_le_cancel_right)
  then have "v\<^sup>2 \<le> b\<^sup>2" by (simp add: power2_eq_square)
  then have "\<bar>v\<bar> \<le> \<bar>b\<bar>" by (simp only: abs_le_square_iff)
  then have "\<bar>v\<bar> \<le> b" using b by simp
  with u show ?thesis by simp
qed

lemma ref_ellipse_inside: "paints_inside ref_ellipse"
  unfolding paints_inside_def
proof (intro allI impI)
  fix b f ol w l p c
  assume r: "ref_ellipse b f ol w = Inr l" and p: "l p = Some c"
  obtain x0 y0 x1 y1 where b: "b = (x0, y0, x1, y1)" by (cases b) auto
  obtain x y where xy: "p = (x, y)" by (cases p) auto
  from r b have l: "l = (\<lambda>(x, y).
          let a = \<lfloor>x1\<rfloor> - \<lfloor>x0\<rfloor> + 1; b = \<lfloor>y1\<rfloor> - \<lfloor>y0\<rfloor> + 1;
              u = 2 * x - \<lfloor>x0\<rfloor> - \<lfloor>x1\<rfloor>; v = 2 * y - \<lfloor>y0\<rfloor> - \<lfloor>y1\<rfloor>
          in if in_ellipse a b u v
             then (if in_ellipse (a - 2 * w) (b - 2 * w) u v then Some (opaque f)
                   else Some (opaque ol))
             else None)"
    by (auto simp: ref_ellipse_def split: if_splits)
  from p have "in_ellipse (\<lfloor>x1\<rfloor> - \<lfloor>x0\<rfloor> + 1) (\<lfloor>y1\<rfloor> - \<lfloor>y0\<rfloor> + 1)
      (2 * x - \<lfloor>x0\<rfloor> - \<lfloor>x1\<rfloor>) (2 * y - \<lfloor>y0\<rfloor> - \<lfloor>y1\<rfloor>)"
    unfolding l xy by (simp add: Let_def split: if_splits)
  from in_ellipse_bound [OF this]
  have "\<lfloor>x0\<rfloor> \<le> x \<and> x \<le> \<lfloor>x1\<rfloor>" and "\<lfloor>y0\<rfloor> \<le> y \<and> y \<le> \<lfloor>y1\<rfloor>"
    by linarith+
  then show "near_box b p"
    using near_floor [of x0 x x1] near_floor [of y0 y y1] by (simp add: near_box_def b xy)
qed

lemma centre_in_ellipse:
  assumes "0 < a" and "0 < b"
    and "u = 0 \<or> u = - 1 \<and> 2 \<le> a" and "v = 0 \<or> v = - 1 \<and> 2 \<le> b"
  shows "in_ellipse a b u v"
proof -
  have "1 * 1 \<le> a * a" using assms(1) by (intro mult_mono) simp_all
  then have aa: "1 \<le> a * a" by simp
  have "1 * 1 \<le> b * b" using assms(2) by (intro mult_mono) simp_all
  then have bb: "1 \<le> b * b" by simp
  have one_a: "b * b \<le> a * a * (b * b)" using aa bb by (simp add: mult_le_cancel_right1)
  have one_b: "a * a \<le> a * a * (b * b)" using aa bb by (simp add: mult_le_cancel_left1)
  have both: "b * b + a * a \<le> a * a * (b * b)" if "2 \<le> a" "2 \<le> b"
  proof -
    have "2 * 2 \<le> a * a" using that(1) by (intro mult_mono) simp_all
    moreover have "2 * 2 \<le> b * b" using that(2) by (intro mult_mono) simp_all
    ultimately have "3 * 3 \<le> (a * a - 1) * (b * b - 1)" by (intro mult_mono) simp_all
    then show ?thesis by (simp add: algebra_simps)
  qed
  from assms(3,4) show ?thesis
    using one_a one_b both assms(1,2) by (auto simp: in_ellipse_def)
qed

lemma ref_ellipse_interior: "fills_interior ref_ellipse"
  unfolding fills_interior_def
proof (intro allI impI)
  fix x0 y0 x1 y1 :: rat and f ol :: rgb and w :: int and l :: layer
  assume r: "ref_ellipse (x0, y0, x1, y1) f ol w = Inr l"
    and wx: "2 * of_int w < x1 - x0" and wy: "2 * of_int w < y1 - y0"
  define X0 X1 Y0 Y1 where "X0 = \<lfloor>x0\<rfloor>" and "X1 = \<lfloor>x1\<rfloor>" and "Y0 = \<lfloor>y0\<rfloor>" and "Y1 = \<lfloor>y1\<rfloor>"
  from r have ord: "x0 \<le> x1" "y0 \<le> y1"
    by (auto simp: ref_ellipse_def split: if_splits)
  then have X: "X0 \<le> X1" and Y: "Y0 \<le> Y1"
    by (simp_all add: X0_def X1_def Y0_def Y1_def floor_mono)
  have "of_int (2 * w) < x1 - x0" using wx by simp
  moreover have "x1 < of_int X1 + 1" "of_int X0 \<le> x0" unfolding X0_def X1_def by linarith+
  ultimately have "(of_int (2 * w) :: rat) < of_int (X1 - X0 + 1)" by simp
  then have "2 * w < X1 - X0 + 1" by (simp only: of_int_less_iff)
  then have ax: "0 < X1 - X0 + 1 - 2 * w" by linarith
  have "of_int (2 * w) < y1 - y0" using wy by simp
  moreover have "y1 < of_int Y1 + 1" "of_int Y0 \<le> y0" unfolding Y0_def Y1_def by linarith+
  ultimately have "(of_int (2 * w) :: rat) < of_int (Y1 - Y0 + 1)" by simp
  then have "2 * w < Y1 - Y0 + 1" by (simp only: of_int_less_iff)
  then have ay: "0 < Y1 - Y0 + 1 - 2 * w" by linarith
  define x y where "x = (X0 + X1) div 2" and "y = (Y0 + Y1) div 2"
  define u v where "u = 2 * x - X0 - X1" and "v = 2 * y - Y0 - Y1"
  have u: "u = 0 \<or> u = - 1 \<and> 2 \<le> X1 - X0 + 1 - 2 * w"
    and u': "u = 0 \<or> u = - 1 \<and> 2 \<le> X1 - X0 + 1"
    using ax X unfolding u_def x_def by presburger+
  have v: "v = 0 \<or> v = - 1 \<and> 2 \<le> Y1 - Y0 + 1 - 2 * w"
    and v': "v = 0 \<or> v = - 1 \<and> 2 \<le> Y1 - Y0 + 1"
    using ay Y unfolding v_def y_def by presburger+
  have outer: "in_ellipse (X1 - X0 + 1) (Y1 - Y0 + 1) u v"
    using X Y u' v' by (intro centre_in_ellipse) simp_all
  have inner: "in_ellipse (X1 - X0 + 1 - 2 * w) (Y1 - Y0 + 1 - 2 * w) u v"
    using ax ay u v by (intro centre_in_ellipse) simp_all
  from r ord have "l (x, y) = Some (opaque f)"
    using outer inner
    by (auto simp: ref_ellipse_def Let_def u_def v_def X0_def X1_def Y0_def Y1_def)
  then show "\<exists>p. l p = Some (opaque f)" by blast
qed

lemma ref_rectangle_accepts: "accepts_ordered ref_rectangle"
  by (auto simp: accepts_ordered_def ref_rectangle_def)

lemma ref_ellipse_accepts: "accepts_ordered ref_ellipse"
  by (auto simp: accepts_ordered_def ref_ellipse_def)

lemma ref_pil_simps: "rectangle ref_pil = ref_rectangle" "ellipse ref_pil = ref_ellipse"
  by (simp_all add: ref_pil_def)

section \<open>The rendered image\<close>

lemma rasterise_colours:
  assumes "paints_colours (rectangle lib)" and "paints_colours (ellipse lib)"
    and "rasterise lib c = Inr l" and "l p = Some col"
  shows "col = opaque (fill c) \<or> col = opaque (outline c)"
proof (cases "kind c")
  case Rectangle
  with assms(3) have "rectangle lib (box c) (fill c) (outline c) (stroke c) = Inr l"
    by (simp add: rasterise_def)
  with assms(1,4) show ?thesis unfolding paints_colours_def by blast
next
  case Ellipse
  with assms(3) have "ellipse lib (box c) (fill c) (outline c) (stroke c) = Inr l"
    by (simp add: rasterise_def)
  with assms(2,4) show ?thesis unfolding paints_colours_def by blast
qed

lemma rasterise_inside:
  assumes "paints_inside (rectangle lib)" and "paints_inside (ellipse lib)"
    and "rasterise lib c = Inr l" and "l p = Some col"
  shows "near_box (box c) p"
proof (cases "kind c")
  case Rectangle
  with assms(3) have "rectangle lib (box c) (fill c) (outline c) (stroke c) = Inr l"
    by (simp add: rasterise_def)
  with assms(1,4) show ?thesis unfolding paints_inside_def by blast
next
  case Ellipse
  with assms(3) have "ellipse lib (box c) (fill c) (outline c) (stroke c) = Inr l"
    by (simp add: rasterise_def)
  with assms(2,4) show ?thesis unfolding paints_inside_def by blast
qed

lemma draw_all_rasterised:
  "draw_all lib cs img = Inr img' \<Longrightarrow> c \<in> set cs \<Longrightarrow> \<exists>l. rasterise lib c = Inr l"
proof (induction cs arbitrary: img)
  case Nil
  then show ?case by simp
next
  case (Cons d ds)
  from Cons.prems(1) obtain l where l: "rasterise lib d = Inr l"
    and rest: "draw_all lib ds (overlay l img) = Inr img'"
    by (auto simp: and_then_Inr draw_Inr)
  show ?case
  proof (cases "c = d")
    case True
    with l show ?thesis by blast
  next
    case False
    with Cons.prems(2) have "c \<in> set ds" by simp
    from Cons.IH [OF rest this] show ?thesis .
  qed
qed

lemma opaque_alpha: "alpha (opaque c) = 255"
  by (cases c) (simp add: opaque_def alpha_def)

lemma pixel_new_image: "pixel (new_image w h c) p = c"
  by (simp add: new_image_def)

lemma create_printer_icon_size:
  "create_printer_icon lib sz = Inr img \<Longrightarrow> width img = sz \<and> height img = sz"
  unfolding create_printer_icon_calls
  by (drule draw_all_size) (simp add: new_image_def)

text \<open>
  Claim C10: every pixel of the rendered image has alpha 0 or alpha 255, for a library
  that paints a shape in its fill and outline colours.
\<close>

theorem alpha_0_or_255:
  assumes "paints_colours (rectangle lib)" and "paints_colours (ellipse lib)"
    and "create_printer_icon lib sz = Inr img"
  shows "alpha (pixel img p) = 0 \<or> alpha (pixel img p) = 255"
proof -
  from assms(3) have d: "draw_all lib (draw_calls sz) (new_image sz sz (0, 0, 0, 0)) = Inr img"
    by (simp add: create_printer_icon_calls)
  from draw_all_pixel [OF d, of p] show ?thesis
  proof
    assume "pixel img p = pixel (new_image sz sz (0, 0, 0, 0)) p"
    then show ?thesis by (simp add: pixel_new_image alpha_def)
  next
    assume "\<exists>c\<in>set (draw_calls sz). \<exists>l. rasterise lib c = Inr l \<and> l p = Some (pixel img p)"
    then obtain c l where "rasterise lib c = Inr l" and "l p = Some (pixel img p)" by blast
    from rasterise_colours [OF assms(1,2) this]
    show ?thesis by (auto simp: opaque_alpha)
  qed
qed

theorem alpha_0_or_255_witness:
  "\<exists>img. create_printer_icon ref_pil 48 = Inr img \<and>
     (alpha (pixel img (24, 24)) = 0 \<or> alpha (pixel img (24, 24)) = 255)"
proof -
  have "\<exists>img. create_printer_icon ref_pil 48 = Inr img"
    by (rule create_printer_icon_returns)
      (simp_all add: ref_pil_simps ref_rectangle_accepts ref_ellipse_accepts)
  then obtain img where img: "create_printer_icon ref_pil 48 = Inr img" ..
  have "alpha (pixel img (24, 24)) = 0 \<or> alpha (pixel img (24, 24)) = 255"
    by (rule alpha_0_or_255 [OF _ _ img])
      (simp_all add: ref_pil_simps ref_rectangle_colours ref_ellipse_colours)
  with img show ?thesis by blast
qed

text \<open>
  Claim C7: the shapes are drawn in the order paper, body, front panel, power button
  (from size 32 on), tray, and where shapes overlap the later one shows: a pixel a call
  paints, and no call after it paints, has the colour that call gave it.
\<close>

theorem later_shape_overlays:
  assumes "create_printer_icon lib sz = Inr img"
    and "draw_calls sz = pre @ c # post"
    and "rasterise lib c = Inr l" and "l p = Some col" and "in_bounds img p"
    and "\<forall>c'\<in>set post. \<forall>l'. rasterise lib c' = Inr l' \<longrightarrow> l' p = None"
  shows "create_printer_icon lib sz =
           draw_all lib
             (if 32 \<le> sz
              then [paper_call sz, body_call sz, panel_call sz, button_call sz, tray_call sz]
              else [paper_call sz, body_call sz, panel_call sz, tray_call sz])
             (new_image sz sz (0, 0, 0, 0)) \<and>
         pixel img p = col"
proof
  show "create_printer_icon lib sz =
           draw_all lib
             (if 32 \<le> sz
              then [paper_call sz, body_call sz, panel_call sz, button_call sz, tray_call sz]
              else [paper_call sz, body_call sz, panel_call sz, tray_call sz])
             (new_image sz sz (0, 0, 0, 0))"
    by (simp add: create_printer_icon_calls draw_calls_def)
next
  from assms(1,2) have d: "draw_all lib (pre @ c # post) (new_image sz sz (0, 0, 0, 0)) = Inr img"
    by (simp add: create_printer_icon_calls)
  have "in_bounds (new_image sz sz (0, 0, 0, 0)) p"
    using draw_all_in_bounds [OF d, of p] assms(5) by simp
  from draw_all_last_wins [OF d assms(3,4) this assms(6)] show "pixel img p = col" .
qed

lemma floor_rat_numeral [simp]: "\<lfloor>(numeral a / numeral b :: rat)\<rfloor> = numeral a div numeral b"
  using floor_divide_of_int_eq [of "numeral a" "numeral b", where ?'a = rat] by simp


lemma ref_rectangle_at:
  assumes "ref_rectangle (x0, y0, x1, y1) f ol w = Inr l"
  shows "l (x, y) =
     (if \<lfloor>x0\<rfloor> \<le> x \<and> x \<le> \<lfloor>x1\<rfloor> \<and> \<lfloor>y0\<rfloor> \<le> y \<and> y \<le> \<lfloor>y1\<rfloor>
      then (if x < \<lfloor>x0\<rfloor> + w \<or> \<lfloor>x1\<rfloor> - w < x \<or> y < \<lfloor>y0\<rfloor> + w \<or> \<lfloor>y1\<rfloor> - w < y
            then Some (opaque ol) else Some (opaque f))
      else None)"
  using assms by (auto simp: ref_rectangle_def split: if_splits)

theorem later_shape_overlays_witness:
  "\<exists>img body panel.
     create_printer_icon ref_pil 16 = Inr img \<and>
     rasterise ref_pil (body_call 16) = Inr body \<and> body (8, 8) = Some (opaque printer_body) \<and>
     rasterise ref_pil (panel_call 16) = Inr panel \<and> panel (8, 8) = Some (opaque accent_color) \<and>
     pixel img (8, 8) = opaque accent_color"
proof -
  have "\<exists>img. create_printer_icon ref_pil 16 = Inr img"
    by (rule create_printer_icon_returns)
      (simp_all add: ref_pil_simps ref_rectangle_accepts ref_ellipse_accepts)
  then obtain img where img: "create_printer_icon ref_pil 16 = Inr img" ..
  have calls: "draw_calls 16 = [paper_call 16, body_call 16] @ panel_call 16 # [tray_call 16]"
    by (simp add: draw_calls_def)
  have lw: "line_width 16 = 1" by (simp add: line_width_div)
  have "\<exists>l. rasterise ref_pil (body_call 16) = Inr l"
    by (rule draw_all_rasterised [OF img [unfolded create_printer_icon_calls]])
      (simp add: draw_calls_def)
  then obtain body where body: "rasterise ref_pil (body_call 16) = Inr body" ..
  then have "ref_rectangle (box (body_call 16)) printer_body outline_color 1 = Inr body"
    by (simp add: rasterise_def body_call_def ref_pil_simps lw)
  then have body8: "body (8, 8) = Some (opaque printer_body)"
    unfolding box_body using ref_rectangle_at [of _ _ _ _ _ _ _ body 8 8] by simp
  have "\<exists>l. rasterise ref_pil (panel_call 16) = Inr l"
    by (rule draw_all_rasterised [OF img [unfolded create_printer_icon_calls]])
      (simp add: draw_calls_def)
  then obtain panel where panel: "rasterise ref_pil (panel_call 16) = Inr panel" ..
  then have "ref_rectangle (box (panel_call 16)) accent_color outline_color 1 = Inr panel"
    by (simp add: rasterise_def panel_call_def ref_pil_simps lw)
  then have panel8: "panel (8, 8) = Some (opaque accent_color)"
    unfolding box_panel lw using ref_rectangle_at [of _ _ _ _ _ _ _ panel 8 8] by simp
  have tray: "\<forall>c'\<in>set [tray_call 16]. \<forall>l'. rasterise ref_pil c' = Inr l' \<longrightarrow> l' (8, 8) = None"
  proof (intro ballI allI impI)
    fix c' l'
    assume "c' \<in> set [tray_call 16]" and "rasterise ref_pil c' = Inr l'"
    then have "ref_rectangle (box (tray_call 16)) tray_color outline_color 1 = Inr l'"
      by (simp add: rasterise_def tray_call_def ref_pil_simps lw)
    then show "l' (8, 8) = None"
      unfolding box_tray using ref_rectangle_at [of _ _ _ _ _ _ _ l' 8 8] by simp
  qed
  have inb: "in_bounds img (8, 8)"
    using create_printer_icon_size [OF img] by (simp add: in_bounds_def)
  from later_shape_overlays [OF img calls panel panel8 inb tray]
  have "pixel img (8, 8) = opaque accent_color" by simp
  with img body body8 panel panel8 show ?thesis by blast
qed

section \<open>The power button\<close>

lemma button_not_others:
  "button_call sz \<noteq> paper_call sz" "button_call sz \<noteq> body_call sz"
  "button_call sz \<noteq> panel_call sz" "button_call sz \<noteq> tray_call sz"
proof -
  have k: "kind (button_call sz) = Ellipse" "kind (paper_call sz) = Rectangle"
    "kind (body_call sz) = Rectangle" "kind (panel_call sz) = Rectangle"
    "kind (tray_call sz) = Rectangle"
    by (simp_all add: button_call_def paper_call_def body_call_def panel_call_def tray_call_def)
  show "button_call sz \<noteq> paper_call sz" "button_call sz \<noteq> body_call sz"
    "button_call sz \<noteq> panel_call sz" "button_call sz \<noteq> tray_call sz"
    using k by (metis shape.distinct(1))+
qed

lemma button_drawn_iff: "button_call sz \<in> set (draw_calls sz) \<longleftrightarrow> 32 \<le> sz"
  by (simp add: draw_calls_def button_not_others)

lemma no_green_below_32:
  assumes "sz < 32" and "c \<in> set (draw_calls sz)"
  shows "opaque (fill c) \<noteq> opaque button_color \<and> opaque (outline c) \<noteq> opaque button_color"
  using assms
  by (auto simp: draw_calls_def paper_call_def body_call_def panel_call_def tray_call_def
      opaque_def button_color_def paper_color_def printer_body_def accent_color_def
      tray_color_def outline_color_def)

lemma button_stroke_fits:
  assumes "32 \<le> sz"
  shows "2 * (of_int (stroke (button_call sz)) :: rat) < of_int sz / 10"
proof -
  have sz: "(32::rat) \<le> of_int sz" using assms by simp
  have lw: "(of_int (line_width sz) :: rat) \<le> max 1 (of_int sz / 32)" by (rule line_width_le)
  have "stroke (button_call sz) = max 1 (line_width sz - 1)" by (simp add: button_call_def)
  then have "(of_int (stroke (button_call sz)) :: rat) = max 1 (of_int (line_width sz) - 1)"
    by (simp add: max_def)
  with sz lw show ?thesis by (simp add: max_def split: if_splits)
qed

lemma button_in_image:
  assumes "32 \<le> sz" and "near_box (box (button_call sz)) p" and "width img = sz" and "height img = sz"
  shows "in_bounds img p"
proof -
  obtain x y where p: "p = (x, y)" by (cases p) auto
  have sz: "(32::rat) \<le> of_int sz" using assms(1) by simp
  from assms(2) have "(0::rat) < of_int x + 1" "(of_int x :: rat) < of_int sz"
    "(0::rat) < of_int y + 1" "(of_int y :: rat) < of_int sz"
    using sz by (simp_all add: p box_button near_box_def)
  then have "(of_int 0 :: rat) < of_int (x + 1)" "(of_int x :: rat) < of_int sz"
    "(of_int 0 :: rat) < of_int (y + 1)" "(of_int y :: rat) < of_int sz"
    by simp_all
  then have "0 < x + 1" "x < sz" "0 < y + 1" "y < sz"
    by (simp_all only: of_int_less_iff)
  then show ?thesis by (simp add: in_bounds_def p assms(3,4))
qed

lemma tray_misses_button:
  assumes "32 \<le> sz" and "near_box (box (button_call sz)) p"
  shows "\<not> near_box (box (tray_call sz)) p"
proof -
  obtain x y where p: "p = (x, y)" by (cases p) auto
  have sz: "(32::rat) \<le> of_int sz" using assms(1) by simp
  from assms(2) have "(of_int y :: rat) < of_int sz * 3 / 8 + 1"
    by (simp add: p box_button near_box_def)
  with sz have "\<not> of_int sz * 3 / 4 - 1 < (of_int y :: rat)" by simp
  then show ?thesis by (simp add: p box_tray near_box_def)
qed

text \<open>
  Claim C4: the power button is drawn exactly from size 32 on. It is an ellipse in the
  square box of centre \<open>(body_x + 0.8 * body_w, body_y + 0.15 * body_h)\<close> and radius
  \<open>0.05 * size\<close>, filled with the green \<open>(100, 200, 100)\<close>. From size 32 on a pixel
  of the image near that box has the green; below 32 no pixel has it. The library paints
  a shape in its colours and near its box, and an ellipse wider and higher than twice
  its stroke has a pixel in its fill colour.
\<close>

theorem power_button_from_32:
  assumes "paints_colours (rectangle lib)" and "paints_colours (ellipse lib)"
    and "paints_inside (rectangle lib)" and "paints_inside (ellipse lib)"
    and "fills_interior (ellipse lib)"
    and "create_printer_icon lib sz = Inr img"
  shows "(button_call sz \<in> set (draw_calls sz) \<longleftrightarrow> 32 \<le> sz) \<and>
         kind (button_call sz) = Ellipse \<and> fill (button_call sz) = (100, 200, 100) \<and>
         box (button_call sz) =
           (body_x sz + body_w sz * 0.8 - of_int sz * 0.05,
            body_y sz + body_h sz * 0.15 - of_int sz * 0.05,
            body_x sz + body_w sz * 0.8 + of_int sz * 0.05,
            body_y sz + body_h sz * 0.15 + of_int sz * 0.05) \<and>
         (32 \<le> sz \<longrightarrow>
            (\<exists>p. near_box (box (button_call sz)) p \<and> in_bounds img p \<and>
                 pixel img p = opaque (100, 200, 100))) \<and>
         (sz < 32 \<longrightarrow> (\<forall>p. pixel img p \<noteq> opaque (100, 200, 100)))"
proof (intro conjI impI allI)
  show "button_call sz \<in> set (draw_calls sz) \<longleftrightarrow> 32 \<le> sz" by (rule button_drawn_iff)
  show "kind (button_call sz) = Ellipse" by (simp add: button_call_def)
  show "fill (button_call sz) = (100, 200, 100)" by (simp add: button_call_def button_color_def)
  show "box (button_call sz) =
           (body_x sz + body_w sz * 0.8 - of_int sz * 0.05,
            body_y sz + body_h sz * 0.15 - of_int sz * 0.05,
            body_x sz + body_w sz * 0.8 + of_int sz * 0.05,
            body_y sz + body_h sz * 0.15 + of_int sz * 0.05)"
    by (simp add: button_call_def button_x_def button_y_def button_r_def)
next
  from assms(6) have d: "draw_all lib (draw_calls sz) (new_image sz sz (0, 0, 0, 0)) = Inr img"
    by (simp add: create_printer_icon_calls)
  assume big: "32 \<le> sz"
  then have calls: "draw_calls sz =
      [paper_call sz, body_call sz, panel_call sz] @ button_call sz # [tray_call sz]"
    by (simp add: draw_calls_def)
  from draw_all_rasterised [OF d] big obtain l where l: "rasterise lib (button_call sz) = Inr l"
    using button_drawn_iff [of sz] by blast
  then have e: "ellipse lib (of_int sz * 33 / 50, of_int sz * 11 / 40, of_int sz * 19 / 25,
      of_int sz * 3 / 8) (fill (button_call sz)) (outline (button_call sz))
      (stroke (button_call sz)) = Inr l"
    by (simp add: rasterise_def box_button [symmetric]) (simp add: button_call_def)
  have "2 * (of_int (stroke (button_call sz)) :: rat) < of_int sz * 19 / 25 - of_int sz * 33 / 50"
    and "2 * (of_int (stroke (button_call sz)) :: rat) < of_int sz * 3 / 8 - of_int sz * 11 / 40"
    using button_stroke_fits [OF big] by simp_all
  with assms(5) e have "\<exists>p. l p = Some (opaque (fill (button_call sz)))"
    unfolding fills_interior_def by blast
  then obtain p where p: "l p = Some (opaque button_color)"
    by (auto simp: button_call_def)
  from rasterise_inside [OF assms(3,4) l p] have near: "near_box (box (button_call sz)) p" .
  have inb: "in_bounds img p"
    using button_in_image [OF big near] create_printer_icon_size [OF assms(6)] by simp
  then have inb0: "in_bounds (new_image sz sz (0, 0, 0, 0)) p"
    using draw_all_in_bounds [OF d, of p] by simp
  have "\<forall>c'\<in>set [tray_call sz]. \<forall>l'. rasterise lib c' = Inr l' \<longrightarrow> l' p = None"
  proof (intro ballI allI impI)
    fix c' l'
    assume c': "c' \<in> set [tray_call sz]" and l': "rasterise lib c' = Inr l'"
    show "l' p = None"
    proof (cases "l' p")
      case None
      then show ?thesis .
    next
      case (Some col)
      from rasterise_inside [OF assms(3,4) l' Some] c' tray_misses_button [OF big near]
      show ?thesis by simp
    qed
  qed
  from draw_all_last_wins [OF d [unfolded calls] l p inb0 this]
  have "pixel img p = opaque button_color" .
  then have "pixel img p = opaque (100, 200, 100)" by (simp add: button_color_def)
  with near inb
  show "\<exists>p. near_box (box (button_call sz)) p \<and> in_bounds img p \<and>
       pixel img p = opaque (100, 200, 100)"
    by blast
next
  fix p
  from assms(6) have d: "draw_all lib (draw_calls sz) (new_image sz sz (0, 0, 0, 0)) = Inr img"
    by (simp add: create_printer_icon_calls)
  assume small: "sz < 32"
  from draw_all_pixel [OF d, of p] show "pixel img p \<noteq> opaque (100, 200, 100)"
  proof
    assume "pixel img p = pixel (new_image sz sz (0, 0, 0, 0)) p"
    then show ?thesis by (simp add: pixel_new_image opaque_def)
  next
    assume "\<exists>c\<in>set (draw_calls sz). \<exists>l. rasterise lib c = Inr l \<and> l p = Some (pixel img p)"
    then obtain c l where c: "c \<in> set (draw_calls sz)"
      and l: "rasterise lib c = Inr l" and lp: "l p = Some (pixel img p)" by blast
    from rasterise_colours [OF assms(1,2) l lp] no_green_below_32 [OF small c]
    show ?thesis by (auto simp: button_color_def)
  qed
qed

theorem power_button_from_32_witness:
  "(\<exists>img p. create_printer_icon ref_pil 32 = Inr img \<and> in_bounds img p \<and>
      pixel img p = opaque (100, 200, 100)) \<and>
   (\<exists>img. create_printer_icon ref_pil 16 = Inr img \<and>
      (\<forall>p. pixel img p \<noteq> opaque (100, 200, 100)))"
proof -
  have ok: "paints_colours (rectangle ref_pil)" "paints_colours (ellipse ref_pil)"
    "paints_inside (rectangle ref_pil)" "paints_inside (ellipse ref_pil)"
    "fills_interior (ellipse ref_pil)"
    by (simp_all add: ref_pil_simps ref_rectangle_colours ref_ellipse_colours
        ref_rectangle_inside ref_ellipse_inside ref_ellipse_interior)
  have ret: "\<exists>img. create_printer_icon ref_pil sz = Inr img" if "6 \<le> sz" for sz
    using that by (intro create_printer_icon_returns)
      (simp_all add: ref_pil_simps ref_rectangle_accepts ref_ellipse_accepts)
  from ret [of 32] obtain a where a: "create_printer_icon ref_pil 32 = Inr a" by auto
  from ret [of 16] obtain b where b: "create_printer_icon ref_pil 16 = Inr b" by auto
  from power_button_from_32 [OF ok a]
  have "\<exists>p. in_bounds a p \<and> pixel a p = opaque (100, 200, 100)" by auto
  moreover from power_button_from_32 [OF ok b]
  have "\<forall>p. pixel b p \<noteq> opaque (100, 200, 100)" by auto
  ultimately show ?thesis using a b by blast
qed

section \<open>Sizes and proportions\<close>

text \<open>
  Claim C5, as the specification states it: the coordinates of every shape are
  proportional to the size. The front panel is inset from the body by twice the line
  width, which is 1 at the sizes 16 and 32 alike: its box at 32 is not twice its box
  at 16. At size 5 the inset exceeds the body and the panel's box has \<open>x1 < x0\<close>,
  which the reference rasteriser refuses.
\<close>

theorem panel_not_proportional:
  "box (panel_call 16) = (22 / 5, 32 / 5, 58 / 5, 10) \<and>
   box (panel_call 32) = (34 / 5, 64 / 5, 126 / 5, 22) \<and>
   box (panel_call 32) \<noteq> scaled 2 (box (panel_call 16)) \<and>
   box (panel_call 5) = (11 / 4, 2, 9 / 4, 7 / 4) \<and>
   create_printer_icon ref_pil 5 = Inl ValueError"
proof -
  have lw: "line_width 16 = 1" "line_width 32 = 1" "line_width 5 = 1"
    by (simp_all add: line_width_div)
  have p16: "box (panel_call 16) = (22 / 5, 32 / 5, 58 / 5, 10)"
    and p32: "box (panel_call 32) = (34 / 5, 64 / 5, 126 / 5, 22)"
    and p5: "box (panel_call 5) = (11 / 4, 2, 9 / 4, 7 / 4)"
    by (simp_all add: box_panel lw)
  have "box (panel_call 32) \<noteq> scaled 2 (box (panel_call 16))"
    by (simp add: p16 p32 scaled_def)
  moreover have "create_printer_icon ref_pil 5 = Inl ValueError"
    by (simp add: create_printer_icon_def draw_def rasterise_def and_then_def ref_pil_simps
        paper_call_def body_call_def panel_call_def lw ref_rectangle_def
        paper_x_def paper_y_def paper_w_def paper_h_def
        body_x_def body_y_def body_w_def body_h_def panel_y_def)
  ultimately show ?thesis using p16 p32 p5 by simp
qed

section \<open>The packaging\<close>

lemma render_all_sizes:
  "render_all render sizes [] = Inr icons \<longleftrightarrow>
     (\<exists>a b c d. render 16 = Inr a \<and> render 32 = Inr b \<and> render 48 = Inr c \<and>
        render 256 = Inr d \<and> icons = [a, b, c, d])"
  by (auto simp: sizes_def and_then_Inr)

lemma package_sizes:
  assumes "render_all render sizes [] = Inr icons"
  shows "icons \<noteq> [] \<and>
         package render save sizes path =
           save (last icons) path ''ICO'' [(16, 16), (32, 32), (48, 48), (256, 256)]"
proof -
  from assms obtain a b c d where "icons = [a, b, c, d]"
    by (auto simp: render_all_sizes)
  with assms show ?thesis
    by (simp add: package_def and_then_def last_icon_def) (simp add: sizes_def)
qed

lemma ref_pil_renders:
  assumes "6 \<le> sz"
  shows "\<exists>img. create_printer_icon ref_pil sz = Inr img"
  using assms by (intro create_printer_icon_returns)
    (simp_all add: ref_pil_simps ref_rectangle_accepts ref_ellipse_accepts)

text \<open>
  Claim C1, amended: \<open>main\<close> calls the renderer once for each of the sizes 16, 32, 48
  and 256, in this order, and collects the four images in this order. It calls the
  library's save once, on the last of them alone, the render of size 256, with the
  output path, the format ICO and the four pairs of sizes: the renders of the sizes 16,
  32 and 48 are not handed to the library.
\<close>

theorem main_saves_largest:
  assumes "create_printer_icon lib 16 = Inr a" and "create_printer_icon lib 32 = Inr b"
    and "create_printer_icon lib 48 = Inr c" and "create_printer_icon lib 256 = Inr d"
  shows "render_all (create_printer_icon lib) sizes [] = Inr [a, b, c, d] \<and>
         main lib save path = save d path ''ICO'' [(16, 16), (32, 32), (48, 48), (256, 256)]"
proof -
  have r: "render_all (create_printer_icon lib) sizes [] = Inr [a, b, c, d]"
    using assms by (simp add: render_all_sizes)
  from package_sizes [OF r] show ?thesis
    using r by (simp add: main_def)
qed

theorem main_saves_largest_witness:
  "\<exists>a b c d.
     render_all (create_printer_icon ref_pil) sizes [] = Inr [a, b, c, d] \<and>
     width a = 16 \<and> width b = 32 \<and> width c = 48 \<and> width d = 256 \<and>
     main ref_pil keep_all ''assets/icon.ico'' =
       Inr (d, ''assets/icon.ico'', ''ICO'', [(16, 16), (32, 32), (48, 48), (256, 256)])"
proof -
  from ref_pil_renders [of 16] obtain a where a: "create_printer_icon ref_pil 16 = Inr a" by auto
  from ref_pil_renders [of 32] obtain b where b: "create_printer_icon ref_pil 32 = Inr b" by auto
  from ref_pil_renders [of 48] obtain c where c: "create_printer_icon ref_pil 48 = Inr c" by auto
  from ref_pil_renders [of 256] obtain d where d: "create_printer_icon ref_pil 256 = Inr d" by auto
  from main_saves_largest [OF a b c d, of keep_all "''assets/icon.ico''"]
  have "render_all (create_printer_icon ref_pil) sizes [] = Inr [a, b, c, d]"
    and "main ref_pil keep_all ''assets/icon.ico'' =
       Inr (d, ''assets/icon.ico'', ''ICO'', [(16, 16), (32, 32), (48, 48), (256, 256)])"
    by (simp_all add: keep_all_def)
  moreover have "width a = 16" "width b = 32" "width c = 48" "width d = 256"
    using create_printer_icon_size [OF a] create_printer_icon_size [OF b]
      create_printer_icon_size [OF c] create_printer_icon_size [OF d] by simp_all
  ultimately show ?thesis by blast
qed

text \<open>
  Claim C9: the file is a function of the last collected image alone. Two runs of the
  packaging that collect images with the same last one, whatever the others are, give
  the library the same arguments and so leave the same file (or raise the same error).
\<close>

theorem file_depends_on_last_only:
  assumes "render_all render sizes [] = Inr icons"
    and "render_all render' sizes [] = Inr icons'"
    and "last icons = last icons'"
  shows "package render save sizes path = package render' save sizes path \<and>
         package render save sizes path =
           save (last icons) path ''ICO'' [(16, 16), (32, 32), (48, 48), (256, 256)] \<and>
         render 256 = Inr (last icons)"
proof -
  from assms(1) have "render 256 = Inr (last icons)"
    by (auto simp: render_all_sizes)
  with package_sizes [OF assms(1), of save path] package_sizes [OF assms(2), of save path]
    assms(3)
  show ?thesis by simp
qed

theorem file_depends_on_last_only_witness:
  "package (\<lambda>s. Inr (new_image s s (0, 0, 0, 0))) keep_all sizes ''icon.ico'' =
   package (\<lambda>s. Inr (new_image s s (if s < 256 then (70, 130, 180, 255) else (0, 0, 0, 0))))
     keep_all sizes ''icon.ico'' \<and>
   package (\<lambda>s. Inr (new_image s s (0, 0, 0, 0))) keep_all sizes ''icon.ico'' =
   Inr (new_image 256 256 (0, 0, 0, 0), ''icon.ico'', ''ICO'',
        [(16, 16), (32, 32), (48, 48), (256, 256)])"
proof -
  let ?r = "\<lambda>s::int. Inr (new_image s s (0, 0, 0, 0)) :: py_error + image"
  let ?r' = "\<lambda>s::int. Inr (new_image s s (if s < 256 then (70, 130, 180, 255) else (0, 0, 0, 0)))
    :: py_error + image"
  have 1: "render_all ?r sizes [] = Inr [new_image 16 16 (0, 0, 0, 0), new_image 32 32 (0, 0, 0, 0),
      new_image 48 48 (0, 0, 0, 0), new_image 256 256 (0, 0, 0, 0)]"
    by (simp add: render_all_sizes)
  have 2: "render_all ?r' sizes [] = Inr [new_image 16 16 (70, 130, 180, 255),
      new_image 32 32 (70, 130, 180, 255), new_image 48 48 (70, 130, 180, 255),
      new_image 256 256 (0, 0, 0, 0)]"
    by (simp add: render_all_sizes)
  have l: "last [new_image 16 16 (0, 0, 0, 0), new_image 32 32 (0, 0, 0, 0),
      new_image 48 48 (0, 0, 0, 0), new_image 256 256 (0, 0, 0, 0)] =
    last [new_image 16 16 (70, 130, 180, 255), new_image 32 32 (70, 130, 180, 255),
      new_image 48 48 (70, 130, 180, 255), new_image 256 256 (0, 0, 0, 0)]"
    by simp
  note t = file_depends_on_last_only [OF 1 2 l, of keep_all "''icon.ico''"]
  from t have e1: "package ?r keep_all sizes ''icon.ico'' = package ?r' keep_all sizes ''icon.ico''"
    by (rule conjunct1)
  from t have "package ?r keep_all sizes ''icon.ico'' =
      keep_all (last [new_image 16 16 (0, 0, 0, 0), new_image 32 32 (0, 0, 0, 0),
        new_image 48 48 (0, 0, 0, 0), new_image 256 256 (0, 0, 0, 0)]) ''icon.ico'' ''ICO''
        [(16, 16), (32, 32), (48, 48), (256, 256)]"
    by (rule conjunct1 [OF conjunct2])
  then have e2: "package ?r keep_all sizes ''icon.ico'' =
      Inr (new_image 256 256 (0, 0, 0, 0), ''icon.ico'', ''ICO'',
        [(16, 16), (32, 32), (48, 48), (256, 256)])"
    by (simp add: keep_all_def)
  from e1 e2 show ?thesis by (intro conjI)
qed



section \<open>Two calls of the renderer\<close>

lemma draw_on_eq:
  "draw_on lib c a s =
     (case draw lib c (objects s a) of Inl e \<Rightarrow> Inl e
      | Inr img \<Rightarrow> Inr (s\<lparr>objects := (objects s)(a := img)\<rparr>))"
  by (simp add: draw_on_def and_then_def)

text \<open>The function on the store allocates one object and leaves in it the image of the
  function on values; it reads nothing of the store but the next free reference.\<close>

lemma create_printer_icon_in_eq:
  "create_printer_icon_in lib sz s =
     (case create_printer_icon lib sz of Inl e \<Rightarrow> Inl e
      | Inr img \<Rightarrow>
          Inr (next_id s, s\<lparr>next_id := Suc (next_id s), objects := (objects s)(next_id s := img)\<rparr>))"
  by (cases "32 \<le> sz")
    (auto simp: create_printer_icon_in_def create_printer_icon_def image_new_def draw_on_eq
      and_then_def split: sum.splits)

lemma create_printer_icon_in_Inr:
  "create_printer_icon_in lib sz s = Inr (a, s') \<longleftrightarrow>
     (\<exists>img. create_printer_icon lib sz = Inr img \<and> a = next_id s \<and>
        s' = s\<lparr>next_id := Suc (next_id s), objects := (objects s)(next_id s := img)\<rparr>)"
  by (cases "create_printer_icon lib sz") (auto simp: create_printer_icon_in_eq)

text \<open>
  Claim C6: the renderer is deterministic, and outside of the shapes it draws the image
  is fully transparent. Two calls with one size, made in any two states of the store
  of image objects, return images that are equal pixel for pixel: the function reads
  nothing of the store, and it changes no object but the new one. In particular a
  second call made after the first returns a new object with the same pixels and
  leaves the first image as it was. The drawing functions of the library are functions
  of their arguments here. A pixel that the shape of no drawing call covers, being
  painted by none, is \<open>(0, 0, 0, 0)\<close> in the result.
\<close>

theorem render_twice_same_pixels:
  assumes "create_printer_icon_in lib sz s = Inr (a, s')"
    and "create_printer_icon_in lib sz t = Inr (b, t')"
  shows "objects s' a = objects t' b \<and>
         (\<forall>i. i \<noteq> a \<longrightarrow> objects s' i = objects s i) \<and>
         (t = s' \<longrightarrow> b \<noteq> a \<and> objects t' a = objects s' a) \<and>
         (\<forall>p. (\<forall>c\<in>set (draw_calls sz). \<forall>l. rasterise lib c = Inr l \<longrightarrow> l p = None) \<longrightarrow>
              pixel (objects s' a) p = (0, 0, 0, 0))"
proof -
  from assms(1) obtain img where img: "create_printer_icon lib sz = Inr img"
    and a: "a = next_id s"
    and s': "s' = s\<lparr>next_id := Suc (next_id s), objects := (objects s)(next_id s := img)\<rparr>"
    by (auto simp: create_printer_icon_in_Inr)
  from assms(2) img have b: "b = next_id t"
    and t': "t' = t\<lparr>next_id := Suc (next_id t), objects := (objects t)(next_id t := img)\<rparr>"
    by (auto simp: create_printer_icon_in_Inr)
  have first: "objects s' a = img" by (simp add: a s')
  have second: "objects t' b = img" by (simp add: b t')
  have others: "\<forall>i. i \<noteq> a \<longrightarrow> objects s' i = objects s i" by (simp add: a s')
  have fresh: "t = s' \<longrightarrow> b \<noteq> a \<and> objects t' a = objects s' a"
    by (simp add: a b s' t')
  have clear: "\<forall>p. (\<forall>c\<in>set (draw_calls sz). \<forall>l. rasterise lib c = Inr l \<longrightarrow> l p = None) \<longrightarrow>
              pixel (objects s' a) p = (0, 0, 0, 0)"
  proof (intro allI impI)
    fix p
    assume none: "\<forall>c\<in>set (draw_calls sz). \<forall>l. rasterise lib c = Inr l \<longrightarrow> l p = None"
    from img have d: "draw_all lib (draw_calls sz) (new_image sz sz (0, 0, 0, 0)) = Inr img"
      by (simp add: create_printer_icon_calls)
    from draw_all_untouched [OF d none] show "pixel (objects s' a) p = (0, 0, 0, 0)"
      by (simp add: first pixel_new_image)
  qed
  from first second others fresh clear show ?thesis by simp
qed

lemma call_fields:
  "kind (paper_call sz) = Rectangle" "fill (paper_call sz) = paper_color"
  "outline (paper_call sz) = outline_color" "stroke (paper_call sz) = line_width sz"
  "kind (body_call sz) = Rectangle" "fill (body_call sz) = printer_body"
  "outline (body_call sz) = outline_color" "stroke (body_call sz) = line_width sz"
  "kind (panel_call sz) = Rectangle" "fill (panel_call sz) = accent_color"
  "outline (panel_call sz) = outline_color" "stroke (panel_call sz) = max 1 (line_width sz - 1)"
  "kind (button_call sz) = Ellipse" "fill (button_call sz) = button_color"
  "outline (button_call sz) = outline_color" "stroke (button_call sz) = max 1 (line_width sz - 1)"
  "kind (tray_call sz) = Rectangle" "fill (tray_call sz) = tray_color"
  "outline (tray_call sz) = outline_color" "stroke (tray_call sz) = line_width sz"
  by (simp_all add: paper_call_def body_call_def panel_call_def button_call_def tray_call_def)

lemma ref_pil_rasterise_16:
  "rasterise ref_pil (paper_call 16) = ref_rectangle (4, 4 / 5, 12, 28 / 5) paper_color outline_color 1"
  "rasterise ref_pil (body_call 16) = ref_rectangle (12 / 5, 4, 68 / 5, 12) printer_body outline_color 1"
  "rasterise ref_pil (panel_call 16) = ref_rectangle (22 / 5, 32 / 5, 58 / 5, 10) accent_color outline_color 1"
  "rasterise ref_pil (tray_call 16) = ref_rectangle (12 / 5, 12, 68 / 5, 72 / 5) tray_color outline_color 1"
proof -
  have lw: "line_width 16 = 1" by (simp add: line_width_div)
  show "rasterise ref_pil (paper_call 16) = ref_rectangle (4, 4 / 5, 12, 28 / 5) paper_color outline_color 1"
    by (simp add: rasterise_def ref_pil_simps call_fields box_paper lw)
  show "rasterise ref_pil (body_call 16) = ref_rectangle (12 / 5, 4, 68 / 5, 12) printer_body outline_color 1"
    by (simp add: rasterise_def ref_pil_simps call_fields box_body lw)
  show "rasterise ref_pil (panel_call 16) = ref_rectangle (22 / 5, 32 / 5, 58 / 5, 10) accent_color outline_color 1"
    by (simp add: rasterise_def ref_pil_simps call_fields box_panel lw)
  show "rasterise ref_pil (tray_call 16) = ref_rectangle (12 / 5, 12, 68 / 5, 72 / 5) tray_color outline_color 1"
    by (simp add: rasterise_def ref_pil_simps call_fields box_tray lw)
qed

theorem render_twice_same_pixels_witness:
  "\<exists>a s' b t'.
     create_printer_icon_in ref_pil 16
       \<lparr>next_id = 0, objects = (\<lambda>i. new_image 0 0 (0, 0, 0, 0))\<rparr> = Inr (a, s') \<and>
     create_printer_icon_in ref_pil 16 s' = Inr (b, t') \<and>
     b \<noteq> a \<and> objects s' a = objects t' b \<and> objects t' a = objects s' a \<and>
     pixel (objects s' a) (14, 8) = (0, 0, 0, 0)"
proof -
  let ?s = "\<lparr>next_id = 0, objects = (\<lambda>i. new_image 0 0 (0, 0, 0, 0))\<rparr>"
  from ref_pil_renders [of 16] obtain img where img: "create_printer_icon ref_pil 16 = Inr img"
    by auto
  obtain a s' where one: "create_printer_icon_in ref_pil 16 ?s = Inr (a, s')"
    using img by (simp add: create_printer_icon_in_eq)
  obtain b t' where two: "create_printer_icon_in ref_pil 16 s' = Inr (b, t')"
    using img by (simp add: create_printer_icon_in_eq)
  have none: "\<forall>c\<in>set (draw_calls 16). \<forall>l. rasterise ref_pil c = Inr l \<longrightarrow> l (14, 8) = None"
    by (auto simp: draw_calls_def ref_pil_rasterise_16 dest!: ref_rectangle_at [where x = 14 and y = 8])
  from render_twice_same_pixels [OF one two] none
  have "objects s' a = objects t' b" "b \<noteq> a" "objects t' a = objects s' a"
    "pixel (objects s' a) (14, 8) = (0, 0, 0, 0)"
    by blast+
  with one two show ?thesis by blast
qed

section \<open>Where the shapes are in the image\<close>

text \<open>The fill colours of the calls of one size differ from each other and from the
  outline colour, so a pixel in a fill colour tells the call that painted it.\<close>

lemma fill_identifies_call:
  assumes "c \<in> set (draw_calls sz)" and "c' \<in> set (draw_calls sz)"
  shows "opaque (fill c) \<noteq> opaque (outline c')"
    and "opaque (fill c) = opaque (fill c') \<Longrightarrow> c' = c"
  using assms
  by (auto simp: draw_calls_def call_fields opaque_def paper_color_def printer_body_def
      accent_color_def button_color_def tray_color_def outline_color_def split: if_splits)

lemma opaque_not_clear: "opaque c \<noteq> (0, 0, 0, 0)"
  by (cases c) (simp add: opaque_def)

lemma fill_pixel_near:
  assumes "paints_colours (rectangle lib)" and "paints_colours (ellipse lib)"
    and "paints_inside (rectangle lib)" and "paints_inside (ellipse lib)"
    and "create_printer_icon lib sz = Inr img"
    and "c \<in> set (draw_calls sz)" and "pixel img p = opaque (fill c)"
  shows "near_box (box c) p"
proof -
  from assms(5) have d: "draw_all lib (draw_calls sz) (new_image sz sz (0, 0, 0, 0)) = Inr img"
    by (simp add: create_printer_icon_calls)
  from draw_all_pixel [OF d, of p] assms(7)
  obtain c' l where c': "c' \<in> set (draw_calls sz)" and l: "rasterise lib c' = Inr l"
    and lp: "l p = Some (opaque (fill c))"
    by (auto simp: pixel_new_image opaque_not_clear)
  from rasterise_colours [OF assms(1,2) l lp] fill_identifies_call [OF assms(6) c']
  have "c' = c" by blast
  with rasterise_inside [OF assms(3,4) l lp] show ?thesis by simp
qed

text \<open>A pixel of the image that some call paints has the colour a call gave it.\<close>

lemma draw_all_painted:
  assumes "draw_all lib cs img = Inr img'"
    and "c \<in> set cs" and "rasterise lib c = Inr l" and "l p \<noteq> None" and "in_bounds img p"
  shows "\<exists>c'\<in>set cs. \<exists>l'. rasterise lib c' = Inr l' \<and> l' p = Some (pixel img' p)"
  using assms
proof (induction cs arbitrary: img)
  case Nil
  then show ?case by simp
next
  case (Cons d ds)
  from Cons.prems(1) obtain ld where ld: "rasterise lib d = Inr ld"
    and rest: "draw_all lib ds (overlay ld img) = Inr img'"
    by (auto simp: and_then_Inr draw_Inr)
  from draw_all_pixel [OF rest, of p] show ?case
  proof
    assume same: "pixel img' p = pixel (overlay ld img) p"
    show ?thesis
    proof (cases "c = d")
      case True
      with ld Cons.prems(3) have "ld = l" by simp
      with Cons.prems(4,5) same have "ld p = Some (pixel img' p)"
        by (cases "l p") (auto simp: pixel_overlay)
      with ld show ?thesis by auto
    next
      case False
      with Cons.prems(2) have "c \<in> set ds" by simp
      moreover have "in_bounds (overlay ld img) p"
        using Cons.prems(5) by (simp add: in_bounds_overlay)
      ultimately have "\<exists>c'\<in>set ds. \<exists>l'. rasterise lib c' = Inr l' \<and> l' p = Some (pixel img' p)"
        using Cons.IH [OF rest _ Cons.prems(3,4)] by blast
      then show ?thesis by auto
    qed
  next
    assume "\<exists>c\<in>set ds. \<exists>l. rasterise lib c = Inr l \<and> l p = Some (pixel img' p)"
    then show ?thesis by auto
  qed
qed

lemma rasterise_covers:
  assumes "covers_box (rectangle lib)" and "kind c = Rectangle"
    and "rasterise lib c = Inr l" and "well_inside (box c) p"
  shows "l p \<noteq> None"
proof -
  from assms(2,3) have "rectangle lib (box c) (fill c) (outline c) (stroke c) = Inr l"
    by (simp add: rasterise_def)
  with assms(1,4) show ?thesis unfolding covers_box_def by blast
qed

lemma well_inside_in_bounds:
  assumes "well_inside (x0, y0, x1, y1) p" and "0 \<le> x0" and "0 \<le> y0"
    and "x1 \<le> of_int (width img)" and "y1 \<le> of_int (height img)"
  shows "in_bounds img p"
proof -
  obtain x y where p: "p = (x, y)" by (cases p) auto
  from assms have "(0::rat) < of_int x" "(of_int x :: rat) < of_int (width img)"
    "(0::rat) < of_int y" "(of_int y :: rat) < of_int (height img)"
    by (simp_all add: p well_inside_def)
  then have "(of_int 0 :: rat) < of_int x" "(of_int x :: rat) < of_int (width img)"
    "(of_int 0 :: rat) < of_int y" "(of_int y :: rat) < of_int (height img)"
    by simp_all
  then have "0 < x" "x < width img" "0 < y" "y < height img"
    by (simp_all only: of_int_less_iff)
  then show ?thesis by (simp add: in_bounds_def p)
qed

text \<open>A pixel well inside the box of a rectangle of the list is painted in the result,
  in the fill or the outline colour of a call.\<close>

lemma well_inside_painted:
  assumes "covers_box (rectangle lib)"
    and "create_printer_icon lib sz = Inr img" and "0 \<le> sz"
    and "c \<in> {paper_call sz, body_call sz, tray_call sz}" and "well_inside (box c) p"
  shows "\<exists>c'\<in>set (draw_calls sz). \<exists>l'. rasterise lib c' = Inr l' \<and> l' p = Some (pixel img p)"
proof -
  from assms(2) have d: "draw_all lib (draw_calls sz) (new_image sz sz (0, 0, 0, 0)) = Inr img"
    by (simp add: create_printer_icon_calls)
  from assms(4) have c: "c \<in> set (draw_calls sz)" and k: "kind c = Rectangle"
    by (auto simp: draw_calls_def call_fields)
  from draw_all_rasterised [OF d c] obtain l where l: "rasterise lib c = Inr l" ..
  from rasterise_covers [OF assms(1) k l assms(5)] have lp: "l p \<noteq> None" .
  have sz: "(0::rat) \<le> of_int sz" using assms(3) by simp
  have "in_bounds (new_image sz sz (0, 0, 0, 0)) p"
    using assms(4,5) sz
    by (auto simp: box_paper box_body box_tray new_image_def
        intro!: well_inside_in_bounds [of _ _ _ _ p])
  from draw_all_painted [OF d c l lp this] show ?thesis .
qed

lemma ref_rectangle_covers: "covers_box ref_rectangle"
  unfolding covers_box_def
proof (intro allI impI)
  fix b f ol w l p
  assume r: "ref_rectangle b f ol w = Inr l" and w: "well_inside b p"
  obtain x0 y0 x1 y1 where b: "b = (x0, y0, x1, y1)" by (cases b) auto
  obtain x y where p: "p = (x, y)" by (cases p) auto
  from w have "x0 \<le> of_int x" "of_int x \<le> x1" "y0 \<le> of_int y" "of_int y \<le> y1"
    by (simp_all add: b p well_inside_def)
  then have "\<lfloor>x0\<rfloor> \<le> x" "x \<le> \<lfloor>x1\<rfloor>" "\<lfloor>y0\<rfloor> \<le> y" "y \<le> \<lfloor>y1\<rfloor>"
    by (simp_all add: floor_le_iff le_floor_iff)
  moreover from r have "ref_rectangle (x0, y0, x1, y1) f ol w = Inr l" by (simp add: b)
  ultimately show "l p \<noteq> None"
    unfolding p by (simp add: ref_rectangle_at del: not_None_eq)
qed

lemma ref_pil_contracts:
  "accepts_ordered (rectangle ref_pil)" "accepts_ordered (ellipse ref_pil)"
  "paints_colours (rectangle ref_pil)" "paints_colours (ellipse ref_pil)"
  "paints_inside (rectangle ref_pil)" "paints_inside (ellipse ref_pil)"
  "covers_box (rectangle ref_pil)"
  by (simp_all add: ref_pil_simps ref_rectangle_accepts ref_ellipse_accepts ref_rectangle_colours
      ref_ellipse_colours ref_rectangle_inside ref_ellipse_inside ref_rectangle_covers)

text \<open>
  Claim C5, amended: from size 6 on, where every box has \<open>x0 \<le> x1\<close> and
  \<open>y0 \<le> y1\<close>, the renderer returns an image of the width and the height of the
  size. In that image the paper, the body, the power button and the tray follow the
  size: every pixel in the fill colour of one of them lies within a pixel of the size
  times a fixed box, and every pixel at least one pixel inside the size times the box
  of the paper, the body or the tray is opaque. The front panel does not: its pixels
  lie within a pixel of the body's box moved inwards by twice the line width on the
  left, the right and the bottom. This is for a library that accepts ordered boxes,
  paints a shape in its two colours within a pixel of its box, and paints the pixels
  at least one pixel inside the box of a rectangle.
\<close>

theorem shapes_follow_size:
  assumes "accepts_ordered (rectangle lib)" and "accepts_ordered (ellipse lib)"
    and "paints_colours (rectangle lib)" and "paints_colours (ellipse lib)"
    and "paints_inside (rectangle lib)" and "paints_inside (ellipse lib)"
    and "covers_box (rectangle lib)" and "6 \<le> sz"
  shows "\<exists>img. create_printer_icon lib sz = Inr img \<and> width img = sz \<and> height img = sz \<and>
    (\<forall>p.
      (pixel img p = opaque paper_color \<longrightarrow>
         near_box (scaled (of_int sz) (0.25, 0.05, 0.75, 0.35)) p) \<and>
      (pixel img p = opaque printer_body \<longrightarrow>
         near_box (scaled (of_int sz) (0.15, 0.25, 0.85, 0.75)) p) \<and>
      (pixel img p = opaque button_color \<longrightarrow>
         32 \<le> sz \<and> near_box (scaled (of_int sz) (0.66, 0.275, 0.76, 0.375)) p) \<and>
      (pixel img p = opaque tray_color \<longrightarrow>
         near_box (scaled (of_int sz) (0.15, 0.75, 0.85, 0.9)) p) \<and>
      (pixel img p = opaque accent_color \<longrightarrow>
         near_box (of_int sz * 0.15 + of_int (2 * line_width sz), of_int sz * 0.4,
                   of_int sz * 0.85 - of_int (2 * line_width sz),
                   of_int sz * 0.75 - of_int (2 * line_width sz)) p) \<and>
      (well_inside (scaled (of_int sz) (0.25, 0.05, 0.75, 0.35)) p \<or>
       well_inside (scaled (of_int sz) (0.15, 0.25, 0.85, 0.75)) p \<or>
       well_inside (scaled (of_int sz) (0.15, 0.75, 0.85, 0.9)) p \<longrightarrow>
         alpha (pixel img p) = 255))"
proof -
  from create_printer_icon_returns [OF assms(1,2,8)]
  obtain img where img: "create_printer_icon lib sz = Inr img" ..
  note near = fill_pixel_near [OF assms(3-6) img]
  have paper: "box (paper_call sz) = scaled (of_int sz) (0.25, 0.05, 0.75, 0.35)"
    by (simp add: box_paper scaled_def)
  have body: "box (body_call sz) = scaled (of_int sz) (0.15, 0.25, 0.85, 0.75)"
    by (simp add: box_body scaled_def)
  have button: "box (button_call sz) = scaled (of_int sz) (0.66, 0.275, 0.76, 0.375)"
    by (simp add: box_button scaled_def)
  have tray: "box (tray_call sz) = scaled (of_int sz) (0.15, 0.75, 0.85, 0.9)"
    by (simp add: box_tray scaled_def)
  have panel: "box (panel_call sz) =
      (of_int sz * 0.15 + of_int (2 * line_width sz), of_int sz * 0.4,
       of_int sz * 0.85 - of_int (2 * line_width sz),
       of_int sz * 0.75 - of_int (2 * line_width sz))"
    by (simp add: box_panel)
  have "pixel img p = opaque paper_color \<longrightarrow>
          near_box (scaled (of_int sz) (0.25, 0.05, 0.75, 0.35)) p" for p
    using near [of "paper_call sz" p] by (simp add: draw_calls_def call_fields paper)
  moreover have "pixel img p = opaque printer_body \<longrightarrow>
          near_box (scaled (of_int sz) (0.15, 0.25, 0.85, 0.75)) p" for p
    using near [of "body_call sz" p] by (simp add: draw_calls_def call_fields body)
  moreover have "pixel img p = opaque tray_color \<longrightarrow>
          near_box (scaled (of_int sz) (0.15, 0.75, 0.85, 0.9)) p" for p
    using near [of "tray_call sz" p] by (simp add: draw_calls_def call_fields tray)
  moreover have "pixel img p = opaque accent_color \<longrightarrow>
         near_box (of_int sz * 0.15 + of_int (2 * line_width sz), of_int sz * 0.4,
                   of_int sz * 0.85 - of_int (2 * line_width sz),
                   of_int sz * 0.75 - of_int (2 * line_width sz)) p" for p
    using near [of "panel_call sz" p] by (simp add: draw_calls_def call_fields panel)
  moreover have "pixel img p = opaque button_color \<longrightarrow>
         32 \<le> sz \<and> near_box (scaled (of_int sz) (0.66, 0.275, 0.76, 0.375)) p" for p
  proof
    assume green: "pixel img p = opaque button_color"
    from img have d: "draw_all lib (draw_calls sz) (new_image sz sz (0, 0, 0, 0)) = Inr img"
      by (simp add: create_printer_icon_calls)
    from draw_all_pixel [OF d, of p] green
    obtain c l where c: "c \<in> set (draw_calls sz)" and l: "rasterise lib c = Inr l"
      and lp: "l p = Some (opaque button_color)"
      by (auto simp: pixel_new_image opaque_not_clear)
    from rasterise_colours [OF assms(3,4) l lp] no_green_below_32 [OF _ c]
    have big: "32 \<le> sz" by force
    with near [of "button_call sz" p] green
    show "32 \<le> sz \<and> near_box (scaled (of_int sz) (0.66, 0.275, 0.76, 0.375)) p"
      by (simp add: draw_calls_def call_fields button)
  qed
  moreover have "well_inside (scaled (of_int sz) (0.25, 0.05, 0.75, 0.35)) p \<or>
       well_inside (scaled (of_int sz) (0.15, 0.25, 0.85, 0.75)) p \<or>
       well_inside (scaled (of_int sz) (0.15, 0.75, 0.85, 0.9)) p \<longrightarrow>
         alpha (pixel img p) = 255" for p
  proof
    assume "well_inside (scaled (of_int sz) (0.25, 0.05, 0.75, 0.35)) p \<or>
       well_inside (scaled (of_int sz) (0.15, 0.25, 0.85, 0.75)) p \<or>
       well_inside (scaled (of_int sz) (0.15, 0.75, 0.85, 0.9)) p"
    then have "\<exists>c. c \<in> {paper_call sz, body_call sz, tray_call sz} \<and> well_inside (box c) p"
      unfolding paper [symmetric] body [symmetric] tray [symmetric] by blast
    then obtain c where "c \<in> {paper_call sz, body_call sz, tray_call sz}"
      and "well_inside (box c) p"
      by blast
    from well_inside_painted [OF assms(7) img _ this] assms(8)
    obtain c' l' where "rasterise lib c' = Inr l'" and "l' p = Some (pixel img p)" by auto
    from rasterise_colours [OF assms(3,4) this] show "alpha (pixel img p) = 255"
      by (auto simp: opaque_alpha)
  qed
  ultimately show ?thesis using img create_printer_icon_size [OF img] by blast
qed

lemmas ref_render_defs = create_printer_icon_def draw_def rasterise_def and_then_def
  ref_pil_simps call_fields line_width_div box_paper box_body box_panel box_button box_tray
  ref_rectangle_def ref_ellipse_def in_ellipse_def overlay_def in_bounds_def new_image_def

lemma render_48_pixels:
  assumes "create_printer_icon ref_pil 48 = Inr img"
  shows "pixel img (24, 6) = opaque paper_color" "pixel img (24, 16) = opaque printer_body"
    "pixel img (24, 25) = opaque accent_color" "pixel img (34, 15) = opaque button_color"
    "pixel img (24, 40) = opaque tray_color"
  using assms by (auto simp: ref_render_defs)

theorem shapes_follow_size_witness:
  "\<exists>img. create_printer_icon ref_pil 48 = Inr img \<and> width img = 48 \<and> height img = 48 \<and>
     pixel img (24, 6) = opaque paper_color \<and>
     near_box (scaled 48 (0.25, 0.05, 0.75, 0.35)) (24, 6) \<and>
     pixel img (24, 16) = opaque printer_body \<and>
     near_box (scaled 48 (0.15, 0.25, 0.85, 0.75)) (24, 16) \<and>
     pixel img (34, 15) = opaque button_color \<and>
     near_box (scaled 48 (0.66, 0.275, 0.76, 0.375)) (34, 15) \<and>
     pixel img (24, 40) = opaque tray_color \<and>
     near_box (scaled 48 (0.15, 0.75, 0.85, 0.9)) (24, 40) \<and>
     pixel img (24, 25) = opaque accent_color \<and>
     near_box (48 * 0.15 + 2, 48 * 0.4, 48 * 0.85 - 2, 48 * 0.75 - 2) (24, 25) \<and>
     well_inside (scaled 48 (0.25, 0.05, 0.75, 0.35)) (24, 6) \<and>
     alpha (pixel img (24, 6)) = 255"
proof -
  have "(6::int) \<le> 48" by simp
  from shapes_follow_size [OF ref_pil_contracts this]
  obtain img where img: "create_printer_icon ref_pil 48 = Inr img"
    and size: "width img = 48" "height img = 48"
    and all: "\<And>p.
      (pixel img p = opaque paper_color \<longrightarrow>
         near_box (scaled (of_int 48) (0.25, 0.05, 0.75, 0.35)) p) \<and>
      (pixel img p = opaque printer_body \<longrightarrow>
         near_box (scaled (of_int 48) (0.15, 0.25, 0.85, 0.75)) p) \<and>
      (pixel img p = opaque button_color \<longrightarrow>
         (32::int) \<le> 48 \<and> near_box (scaled (of_int 48) (0.66, 0.275, 0.76, 0.375)) p) \<and>
      (pixel img p = opaque tray_color \<longrightarrow>
         near_box (scaled (of_int 48) (0.15, 0.75, 0.85, 0.9)) p) \<and>
      (pixel img p = opaque accent_color \<longrightarrow>
         near_box (of_int 48 * 0.15 + of_int (2 * line_width 48), of_int 48 * 0.4,
                   of_int 48 * 0.85 - of_int (2 * line_width 48),
                   of_int 48 * 0.75 - of_int (2 * line_width 48)) p) \<and>
      (well_inside (scaled (of_int 48) (0.25, 0.05, 0.75, 0.35)) p \<or>
       well_inside (scaled (of_int 48) (0.15, 0.25, 0.85, 0.75)) p \<or>
       well_inside (scaled (of_int 48) (0.15, 0.75, 0.85, 0.9)) p \<longrightarrow>
         alpha (pixel img p) = 255)"
    by blast
  note px = render_48_pixels [OF img]
  have wi: "well_inside (scaled 48 (0.25, 0.05, 0.75, 0.35)) (24, 6)"
    by (simp add: scaled_def well_inside_def)
  have lw: "line_width 48 = 1" by (simp add: line_width_div)
  from all [of "(24, 6)"] px(1) wi
  have 1: "near_box (scaled 48 (0.25, 0.05, 0.75, 0.35)) (24, 6)" "alpha (pixel img (24, 6)) = 255"
    by simp_all
  from all [of "(24, 16)"] px(2)
  have 2: "near_box (scaled 48 (0.15, 0.25, 0.85, 0.75)) (24, 16)" by simp
  from all [of "(34, 15)"] px(4)
  have 3: "near_box (scaled 48 (0.66, 0.275, 0.76, 0.375)) (34, 15)" by simp
  from all [of "(24, 40)"] px(5)
  have 4: "near_box (scaled 48 (0.15, 0.75, 0.85, 0.9)) (24, 40)" by simp
  from all [of "(24, 25)"] px(3)
  have 5: "near_box (48 * 0.15 + 2, 48 * 0.4, 48 * 0.85 - 2, 48 * 0.75 - 2) (24, 25)"
    by (simp add: lw)
  from img size px 1 2 3 4 5 wi show ?thesis by blast
qed

section \<open>The width of the body\<close>






section \<open>The file of the reference encoder\<close>

text \<open>
  Claim C1, as the specification states it: the file embeds the four rendered images,
  and the images of 16, 32 and 48 pixels stored in it are the renders of these sizes.
  \<open>main\<close> run with the reference rasteriser and the reference encoder writes a file
  with the frames of 16, 32, 48 and 256 pixels, and the frame of 16 pixels is not the
  render of size 16: at the pixel (11, 5) the frame has the green of the power button,
  taken from the pixel (176, 80) of the render of size 256, where the render of size
  16, which has no button, has the body's colour.
\<close>

theorem small_frame_is_not_small_render:
  "and_then (main ref_pil ref_ico_save ''assets/icon.ico'') (\<lambda>file. Inr (map fst file)) =
     Inr [(16, 16), (32, 32), (48, 48), (256, 256)] \<and>
   and_then (main ref_pil ref_ico_save ''assets/icon.ico'')
     (\<lambda>file. Inr (map (\<lambda>frame. pixel (snd frame) (11, 5))
                      (filter (\<lambda>frame. fst frame = (16, 16)) file))) =
     Inr [opaque button_color] \<and>
   and_then (create_printer_icon ref_pil 16) (\<lambda>img. Inr (pixel img (11, 5))) =
     Inr (opaque printer_body) \<and>
   opaque button_color \<noteq> opaque printer_body"
  by (simp add: main_def package_def sizes_def last_icon_def ref_ico_save_def ref_resize_def
      ref_render_defs opaque_def button_color_def printer_body_def)

end
